theory Spec2Isabelle
  imports Complex_Main "HOL-Library.Word"
begin

section \<open>Data model (types.ts)\<close>

text \<open>
  JavaScript strings are modelled as \<open>string\<close>; one list element stands for one
  code unit, so \<open>length\<close>, \<open>take\<close> and the substring test below count what
  \<open>String.length\<close>, \<open>slice\<close>/\<open>substring\<close> and \<open>includes\<close> count.
  JavaScript numbers are doubles where the code does arithmetic on them (see the
  section on double-precision numbers) and \<open>nat\<close> where it counts.
\<close>

datatype Language = English | ChineseTraditional | Japanese | Korean

datatype LightingTime = Sunny | Sunset | Night

datatype SunDirection = TopLeft | TopRight | BottomLeft | BottomRight

datatype WeatherCondition = Clear | Cloudy | Rain | Snow | ThickFog | LightMist

record File =
  file_name :: string
  file_type :: string

record UploadedImage =
  img_file :: File
  previewUrl :: string
  img_id :: string
  width :: "real option"
  height :: "real option"

record GenerationParams =
  lighting :: LightingTime
  sunDirection :: SunDirection
  weather :: WeatherCondition
  language :: Language

text \<open>
  \<open>PromptResult\<close> as \<open>generateArchitecturalPrompt\<close> builds it: the optional
  fields \<open>imageData\<close> and \<open>error\<close> are \<open>None\<close> when the object holds
  \<open>undefined\<close> there.
\<close>

record PromptResult =
  res_id :: string
  prompt :: string
  imageData :: "string option"
  error :: "string option"
  timestamp :: nat

section \<open>Double-precision numbers\<close>

text \<open>
  A JavaScript number is an IEEE 754 double. A finite double is modelled by the real
  number it denotes, and an arithmetic operation by the exact operation followed by
  rounding to the nearest double, ties going to the even significand
  (\<open>round_double\<close>). A decimal literal denotes the double nearest to it. Comparison
  and \<open>Math.abs\<close> are exact on doubles. The exponent range is not bounded in the
  model: it agrees with IEEE arithmetic as long as the magnitudes stay between
  \<open>2^-1022\<close> and \<open>2^1024\<close>, as pixel dimensions and pointer coordinates do;
  overflow to \<open>Infinity\<close>, subnormal results, \<open>NaN\<close> and division by zero are
  outside it.
\<close>

text \<open>The number of binary digits of a positive integer.\<close>

function bits :: "int \<Rightarrow> int" where
  "bits n = (if n \<le> 0 then 0 else bits (n div 2) + 1)"
  by pat_completeness auto
termination
  by (relation "measure nat") auto

declare bits.simps [simp del]

text \<open>For \<open>x > 0\<close>, the exponent \<open>e\<close> with \<open>2^e \<le> x < 2^(e + 1)\<close>.\<close>

definition expo :: "real \<Rightarrow> int" where
  "expo x = (if 1 \<le> x then bits \<lfloor>x\<rfloor> - 1 else - bits (\<lceil>1 / x\<rceil> - 1))"

definition pow2 :: "int \<Rightarrow> real" where
  "pow2 e = (if 0 \<le> e then 2 ^ nat e else 1 / 2 ^ nat (- e))"

text \<open>Rounding to the nearest integer, a tie going to the even one.\<close>

definition rne :: "real \<Rightarrow> int" where
  "rne m =
    (let f = \<lfloor>m\<rfloor>; r = m - of_int f
     in if r < 1 / 2 then f else if 1 / 2 < r then f + 1 else if even f then f else f + 1)"

text \<open>
  The double nearest to \<open>x\<close>: \<open>x\<close> is scaled so that its magnitude lies between
  \<open>2^52\<close> and \<open>2^53\<close>, rounded to an integer (the 53-bit significand) and
  scaled back.
\<close>

definition round_double :: "real \<Rightarrow> real" where
  "round_double x =
    (if x = 0 then 0
     else (let e = expo \<bar>x\<bar> - 52 in sgn x * of_int (rne (\<bar>x\<bar> / pow2 e)) * pow2 e))"

definition js_add :: "real \<Rightarrow> real \<Rightarrow> real" where
  "js_add a b = round_double (a + b)"

definition js_sub :: "real \<Rightarrow> real \<Rightarrow> real" where
  "js_sub a b = round_double (a - b)"

definition js_mul :: "real \<Rightarrow> real \<Rightarrow> real" where
  "js_mul a b = round_double (a * b)"

definition js_div :: "real \<Rightarrow> real \<Rightarrow> real" where
  "js_div a b = round_double (a / b)"

section \<open>Aspect-ratio selection (services/geminiService.ts, getBestAspectRatio)\<close>

record target =
  target_id :: string
  val :: real

text \<open>The table \<open>targets\<close>; its values are the doubles the decimal literals denote.\<close>

definition targets :: "target list" where
  "targets =
    [\<lparr>target_id = ''1:1'', val = round_double 1\<rparr>,
     \<lparr>target_id = ''3:4'', val = round_double (75 / 100)\<rparr>,
     \<lparr>target_id = ''4:3'', val = round_double (1333 / 1000)\<rparr>,
     \<lparr>target_id = ''9:16'', val = round_double (5625 / 10000)\<rparr>,
     \<lparr>target_id = ''16:9'', val = round_double (1777 / 1000)\<rparr>]"

text \<open>\<open>Math.abs(t.val - ratio)\<close>, the difference as the callback computes it.\<close>

definition diff :: "real \<Rightarrow> target \<Rightarrow> real" where
  "diff ratio t = \<bar>js_sub (val t) ratio\<bar>"

text \<open>The callback of \<open>targets.reduce\<close>: the current entry wins only when strictly nearer.\<close>

definition closer :: "real \<Rightarrow> target \<Rightarrow> target \<Rightarrow> target" where
  "closer ratio prev cur = (if diff ratio cur < diff ratio prev then cur else prev)"

text \<open>
  \<open>Array.prototype.reduce\<close> without an initial value starts from the first element
  and folds the callback over the rest, left to right.
\<close>

definition reduce :: "('a \<Rightarrow> 'a \<Rightarrow> 'a) \<Rightarrow> 'a list \<Rightarrow> 'a" where
  "reduce f xs = foldl f (hd xs) (tl xs)"

text \<open>
  \<open>!width\<close> holds for \<open>undefined\<close> and for \<open>0\<close> (the uploader stores \<open>0\<close>
  when the image cannot be measured).
\<close>

definition falsy_num :: "real option \<Rightarrow> bool" where
  "falsy_num n = (case n of None \<Rightarrow> True | Some x \<Rightarrow> x = 0)"

definition getBestAspectRatio :: "real option \<Rightarrow> real option \<Rightarrow> string" where
  "getBestAspectRatio w h =
    (if falsy_num w \<or> falsy_num h then ''1:1''
     else target_id (reduce (closer (js_div (the w) (the h))) targets))"

text \<open>
  The reading of the selector in which each supported ratio \<open>a:b\<close> has the value
  \<open>a / b\<close> and differences are exact; used only to compare the source against that
  reading.
\<close>

definition exact_targets :: "target list" where
  "exact_targets =
    [\<lparr>target_id = ''1:1'', val = 1\<rparr>,
     \<lparr>target_id = ''3:4'', val = 3 / 4\<rparr>,
     \<lparr>target_id = ''4:3'', val = 4 / 3\<rparr>,
     \<lparr>target_id = ''9:16'', val = 9 / 16\<rparr>,
     \<lparr>target_id = ''16:9'', val = 16 / 9\<rparr>]"

definition exact_diff :: "real \<Rightarrow> target \<Rightarrow> real" where
  "exact_diff r t = \<bar>val t - r\<bar>"

text \<open>
  \<open>first_nearest d ts t\<close>: \<open>t\<close> is the entry of \<open>ts\<close> with the least
  difference \<open>d\<close>, and the first-listed one among the entries of equal difference.
\<close>

definition first_nearest :: "(target \<Rightarrow> real) \<Rightarrow> target list \<Rightarrow> target \<Rightarrow> bool" where
  "first_nearest d ts t =
    (\<exists>i < length ts. ts ! i = t
       \<and> (\<forall>j < length ts. d t \<le> d (ts ! j))
       \<and> (\<forall>j < i. d t < d (ts ! j)))"

section \<open>Remote service boundary (services/geminiService.ts)\<close>

text \<open>
  A thrown value: its \<open>message\<close> property (\<open>None\<close> for \<open>undefined\<close>) and
  what \<open>JSON.stringify\<close> makes of it. \<open>new Error(m)\<close> has no enumerable
  property, so it serialises to \<open>{}\<close>.
\<close>

record js_error =
  message :: "string option"
  json :: string

definition new_Error :: "string \<Rightarrow> js_error" where
  "new_Error m = \<lparr>message = Some m, json = ''{}''\<rparr>"

text \<open>\<open>a || b\<close> for a string \<open>a\<close> that may be undefined: \<open>b\<close> when \<open>a\<close> is undefined or empty.\<close>

definition js_or :: "string option \<Rightarrow> string \<Rightarrow> string" where
  "js_or a b = (case a of None \<Rightarrow> b | Some m \<Rightarrow> if m \<noteq> [] then m else b)"

text \<open>A string that may be undefined, as string concatenation and template literals render it.\<close>

definition js_str :: "string option \<Rightarrow> string" where
  "js_str a = (case a of None \<Rightarrow> ''undefined'' | Some m \<Rightarrow> m)"

datatype part = InlineData string string | TextPart string

record request =
  model :: string
  parts :: "part list"
  aspectRatio :: "string option"

text \<open>
  A response of \<open>ai.models.generateContent\<close>: \<open>resp_text\<close> is \<open>response.text\<close>
  (\<open>None\<close> for \<open>undefined\<close>), \<open>candidate_parts\<close> is
  \<open>response.candidates?.[0]?.content?.parts\<close>, empty when a link of the optional
  chain is missing.
\<close>

record response =
  resp_text :: "string option"
  candidate_parts :: "part list"

datatype PipelineStatus = idle | analyzing | generating | editing

text \<open>
  What the function does to the outside, in order: status callbacks, calls of the remote
  service (an image call carries the value of the loop counter \<open>attempt\<close>) and
  delays in milliseconds.
\<close>

datatype event =
    StatusUpdate PipelineStatus
  | TextCall request
  | ImageCall nat request
  | Wait nat

text \<open>
  The environment of one invocation. \<open>resizeImage k f\<close> is the outcome of reading and
  resizing file \<open>f\<close> in pipeline step \<open>k\<close> (\<open>None\<close> when the promise rejects);
  \<open>generateContent 0 r\<close> answers the text call and \<open>generateContent n r\<close> answers
  image attempt \<open>n\<close>; \<open>clock k\<close> is the \<open>k\<close>-th reading of \<open>Date.now()\<close>.
\<close>

record env =
  apiKey :: string
  resizeImage :: "nat \<Rightarrow> File \<Rightarrow> string option"
  generateContent :: "nat \<Rightarrow> request \<Rightarrow> js_error + response"
  clock :: "nat \<Rightarrow> nat"

definition MAX_RETRIES :: nat where
  "MAX_RETRIES = 3"

definition nl :: string where
  "nl = [CHR 0x0A]"

definition dquote :: string where
  "dquote = [CHR 0x22]"

text \<open>\<open>s.includes(sub)\<close>: \<open>sub\<close> occurs in \<open>s\<close> as a contiguous substring.\<close>

fun includes_str :: "string \<Rightarrow> string \<Rightarrow> bool" where
  "includes_str [] sub = (sub = [])"
| "includes_str (c # cs) sub = (take (length sub) (c # cs) = sub \<or> includes_str cs sub)"

definition digit :: "nat \<Rightarrow> char" where
  "digit d = ''0123456789'' ! d"

function toString :: "nat \<Rightarrow> string" where
  "toString n = (if n < 10 then [digit n] else toString (n div 10) @ [digit (n mod 10)])"
  by pat_completeness auto
termination
  by (relation "measure (\<lambda>n. n)") auto

declare toString.simps [simp del]

definition LightingTime_str :: "LightingTime \<Rightarrow> string" where
  "LightingTime_str l = (case l of Sunny \<Rightarrow> ''Sunny'' | Sunset \<Rightarrow> ''Sunset'' | Night \<Rightarrow> ''Night'')"

definition SunDirection_str :: "SunDirection \<Rightarrow> string" where
  "SunDirection_str d =
    (case d of TopLeft \<Rightarrow> ''Top-Left'' | TopRight \<Rightarrow> ''Top-Right''
     | BottomLeft \<Rightarrow> ''Bottom-Left'' | BottomRight \<Rightarrow> ''Bottom-Right'')"

definition WeatherCondition_str :: "WeatherCondition \<Rightarrow> string" where
  "WeatherCondition_str w =
    (case w of Clear \<Rightarrow> ''Clear'' | Cloudy \<Rightarrow> ''Cloudy'' | Rain \<Rightarrow> ''Rain'' | Snow \<Rightarrow> ''Snow''
     | ThickFog \<Rightarrow> ''Thick Fog'' | LightMist \<Rightarrow> ''Light Mist'')"

definition Language_str :: "Language \<Rightarrow> string" where
  "Language_str l =
    (case l of English \<Rightarrow> ''English'' | ChineseTraditional \<Rightarrow> ''Traditional Chinese''
     | Japanese \<Rightarrow> ''Japanese'' | Korean \<Rightarrow> ''Korean'')"

definition fileToPart :: "env \<Rightarrow> nat \<Rightarrow> File \<Rightarrow> js_error + part" where
  "fileToPart e k f =
    (case resizeImage e k f of
       None \<Rightarrow> Inl (new_Error ''Failed to process image.'')
     | Some base64Data \<Rightarrow>
         Inr (InlineData base64Data
               (if file_type f = ''image/png'' then ''image/png'' else ''image/jpeg'')))"

text \<open>The files are converted one after the other; the first failure is thrown.\<close>

fun filesToParts :: "env \<Rightarrow> nat \<Rightarrow> File list \<Rightarrow> js_error + part list" where
  "filesToParts e k [] = Inr []"
| "filesToParts e k (f # fs) =
    (case fileToPart e k f of
       Inl err \<Rightarrow> Inl err
     | Inr p \<Rightarrow> (case filesToParts e k fs of Inl err \<Rightarrow> Inl err | Inr ps \<Rightarrow> Inr (p # ps)))"

definition analysisPrompt :: "GenerationParams \<Rightarrow> string \<Rightarrow> string" where
  "analysisPrompt params userPrompt =
    nl @ ''      Analyze these inputs for an architectural visualization.'' @ nl
    @ ''      User Vision: '' @ dquote
    @ (if userPrompt \<noteq> [] then userPrompt else ''Not specified'') @ dquote @ nl
    @ ''      Params: '' @ LightingTime_str (lighting params) @ '', ''
    @ SunDirection_str (sunDirection params) @ '', ''
    @ WeatherCondition_str (weather params) @ nl
    @ ''      Output ONLY the final descriptive prompt in '' @ Language_str (language params)
    @ ''.'' @ nl @ ''    ''"

definition textRequest ::
  "part list \<Rightarrow> GenerationParams \<Rightarrow> string \<Rightarrow> request" where
  "textRequest textParts params userPrompt =
    \<lparr>model = ''gemini-2.5-flash'',
     parts = textParts @ [TextPart (analysisPrompt params userPrompt)],
     aspectRatio = None\<rparr>"

text \<open>
  Step 1, the body of the first \<open>try\<close> block: the value of \<open>optimizedPrompt\<close>, or
  the error the block throws, together with the remote calls made.
\<close>

definition textAnalysis ::
  "env \<Rightarrow> UploadedImage \<Rightarrow> UploadedImage option \<Rightarrow> UploadedImage list
    \<Rightarrow> GenerationParams \<Rightarrow> string \<Rightarrow> event list \<times> (js_error + string)" where
  "textAnalysis e sketch context references params userPrompt =
    (case filesToParts e 1
            (map img_file (sketch # (case context of None \<Rightarrow> [] | Some c \<Rightarrow> [c]) @ references)) of
       Inl err \<Rightarrow> ([], Inl err)
     | Inr textParts \<Rightarrow>
         (let req = textRequest textParts params userPrompt in
          case generateContent e 0 req of
            Inl err \<Rightarrow> ([TextCall req], Inl err)
          | Inr resp \<Rightarrow>
              ([TextCall req],
               Inr (js_or (resp_text resp) ''Prompt generation failed.''))))"

definition imageGenPrompt :: "string option \<Rightarrow> string \<Rightarrow> string" where
  "imageGenPrompt masterStylePrompt optimizedPrompt =
    nl @ ''        Create a photorealistic architectural rendering.'' @ nl
    @ ''        ''
    @ (case masterStylePrompt of
         None \<Rightarrow> ''Style: Photorealistic, 8k, Unreal Engine 5.''
       | Some st \<Rightarrow> if st \<noteq> [] then ''STYLE: '' @ st
                    else ''Style: Photorealistic, 8k, Unreal Engine 5.'') @ nl
    @ ''        DESCRIPTION: '' @ take 800 optimizedPrompt @ nl
    @ ''        CONSTRAINTS: Use sketch geometry strictly. High fidelity.'' @ nl
    @ ''      ''"

definition is_inlineData :: "part \<Rightarrow> bool" where
  "is_inlineData p = (case p of InlineData d m \<Rightarrow> True | TextPart t \<Rightarrow> False)"

definition has_text :: "part \<Rightarrow> bool" where
  "has_text p = (case p of InlineData d m \<Rightarrow> False | TextPart t \<Rightarrow> t \<noteq> [])"

text \<open>
  The body of the inner \<open>try\<close>: the image data of the first part that has inline
  data, when that data is not empty; otherwise the thrown error, either the service's own
  or the one the \<open>else\<close> branch makes from the refusal text.
\<close>

definition refusalError :: "response \<Rightarrow> js_error" where
  "refusalError resp =
    new_Error (case find has_text (candidate_parts resp) of
                 Some (TextPart t) \<Rightarrow> t
               | _ \<Rightarrow> ''Model returned no image data.'')"

definition imageAttempt :: "env \<Rightarrow> nat \<Rightarrow> request \<Rightarrow> js_error + string" where
  "imageAttempt e attempt req =
    (case generateContent e attempt req of
       Inl err \<Rightarrow> Inl err
     | Inr resp \<Rightarrow>
         (case find is_inlineData (candidate_parts resp) of
            Some (InlineData d m) \<Rightarrow> if d \<noteq> [] then Inr d else Inl (refusalError resp)
          | _ \<Rightarrow> Inl (refusalError resp)))"

definition err_msg :: "js_error \<Rightarrow> string" where
  "err_msg err = js_or (message err) (json err)"

definition isQuota :: "string \<Rightarrow> bool" where
  "isQuota msg = (includes_str msg ''429'' \<or> includes_str msg ''quota'' \<or> includes_str msg ''RESOURCE_EXHAUSTED'')"

definition isOverloaded :: "string \<Rightarrow> bool" where
  "isOverloaded msg = (includes_str msg ''503'' \<or> includes_str msg ''Overloaded'')"

definition quotaMessage :: string where
  "quotaMessage = ''Daily Quota Exceeded. The free tier for Gemini Image generation is currently exhausted or busy. Please try again later.''"

definition safetyMessage :: string where
  "safetyMessage = ''Safety Block. The model refused the request due to safety guidelines. Try a simpler sketch.''"

text \<open>The message the \<open>catch\<close> block stores in \<open>imageGenerationError\<close>.\<close>

definition sanitize :: "string \<Rightarrow> string" where
  "sanitize msg =
    (if isQuota msg then quotaMessage
     else if includes_str msg ''Safety'' \<or> includes_str msg ''block'' then safetyMessage
     else ''Generation Failed: '' @ take 100 msg @ ''...'')"

text \<open>
  The retry loop \<open>for (let attempt = 1; attempt <= MAX_RETRIES; attempt++)\<close>, from
  the value \<open>attempt\<close> of the counter on. It returns the events of the remaining
  iterations and the final values of \<open>generatedImageData\<close> and
  \<open>imageGenerationError\<close>.
\<close>

function retryLoop ::
  "env \<Rightarrow> request \<Rightarrow> nat \<Rightarrow> event list \<times> string option \<times> string option" where
  "retryLoop e req attempt =
    (if attempt \<le> MAX_RETRIES then
       (case imageAttempt e attempt req of
          Inr d \<Rightarrow> ([ImageCall attempt req], Some d, None)
        | Inl err \<Rightarrow>
            (if (isQuota (err_msg err) \<or> isOverloaded (err_msg err)) \<and> attempt < MAX_RETRIES
             then (case retryLoop e req (attempt + 1) of
                     (tr, res) \<Rightarrow> (ImageCall attempt req # Wait (2000 * attempt) # tr, res))
             else ([ImageCall attempt req], None, Some (sanitize (err_msg err)))))
     else ([], None, None))"
  by pat_completeness auto
termination
  by (relation "measure (\<lambda>(e, req, attempt). Suc MAX_RETRIES - attempt)") auto

declare retryLoop.simps [simp del]

definition imageRequest :: "part list \<Rightarrow> string \<Rightarrow> request" where
  "imageRequest imageGenParts ratio =
    \<lparr>model = ''gemini-2.5-flash-image'', parts = imageGenParts, aspectRatio = Some ratio\<rparr>"

text \<open>
  Step 2, the second \<open>try\<close> block with its \<open>catch (setupError)\<close>: events,
  \<open>generatedImageData\<close> and \<open>imageGenerationError\<close>.
\<close>

definition imageGeneration ::
  "env \<Rightarrow> UploadedImage \<Rightarrow> string option \<Rightarrow> string
    \<Rightarrow> event list \<times> string option \<times> string option" where
  "imageGeneration e sketch masterStylePrompt optimizedPrompt =
    (case fileToPart e 2 (img_file sketch) of
       Inl setupError \<Rightarrow> ([], None, Some (''Failed to prepare image data: '' @ js_str (message setupError)))
     | Inr p \<Rightarrow>
         (case retryLoop e
                 (imageRequest [p, TextPart (imageGenPrompt masterStylePrompt optimizedPrompt)]
                    (getBestAspectRatio (width sketch) (height sketch)))
                 1 of
            (tr, res) \<Rightarrow> (StatusUpdate generating # tr, res)))"

text \<open>
  The whole function: the events, and either the thrown error (\<open>Inl\<close>) or the
  returned \<open>PromptResult\<close> (\<open>Inr\<close>). \<open>getAIClient\<close> throws when no key is set.
\<close>

definition generateArchitecturalPrompt ::
  "env \<Rightarrow> UploadedImage \<Rightarrow> UploadedImage option \<Rightarrow> UploadedImage list
    \<Rightarrow> GenerationParams \<Rightarrow> string \<Rightarrow> string option
    \<Rightarrow> event list \<times> (js_error + PromptResult)" where
  "generateArchitecturalPrompt e sketch context references params userPrompt masterStylePrompt =
    (if apiKey e = [] then
       ([], Inl (new_Error ''API Key is missing. Please check your environment variables.''))
     else
       (case textAnalysis e sketch context references params userPrompt of
          (tr1, Inl err) \<Rightarrow>
            (StatusUpdate analyzing # tr1,
             Inl (new_Error (''Analysis failed: ''
                    @ js_or (message err) ''Unknown error'')))
        | (tr1, Inr optimizedPrompt) \<Rightarrow>
            (case imageGeneration e sketch masterStylePrompt optimizedPrompt of
               (tr2, generatedImageData, imageGenerationError) \<Rightarrow>
                 (StatusUpdate analyzing # tr1 @ tr2,
                  Inr \<lparr>res_id = toString (clock e 0),
                       prompt = optimizedPrompt,
                       imageData = generatedImageData,
                       error = imageGenerationError,
                       timestamp = clock e 1\<rparr>))))"

text \<open>
  The failure classes of the spec. The source has no classifier function; the classes
  are read off the tests of the \<open>catch\<close> block, in the order in which the block
  consults them: the two retriable tests first, the policy-refusal test after.
\<close>

datatype classification = Quota_exceeded | Overloaded | Safety_blocked | Fatal_other

definition classify :: "string \<Rightarrow> classification" where
  "classify msg =
    (if isQuota msg then Quota_exceeded
     else if isOverloaded msg then Overloaded
     else if includes_str msg ''Safety'' \<or> includes_str msg ''block'' then Safety_blocked
     else Fatal_other)"

definition retriable :: "classification \<Rightarrow> bool" where
  "retriable c = (c = Quota_exceeded \<or> c = Overloaded)"

text \<open>The attempt numbers of the image calls of a trace, and its delays, in order.\<close>

fun attempts :: "event list \<Rightarrow> nat list" where
  "attempts [] = []"
| "attempts (ImageCall n r # es) = n # attempts es"
| "attempts (ev # es) = attempts es"

fun waits :: "event list \<Rightarrow> nat list" where
  "waits [] = []"
| "waits (Wait ms # es) = ms # waits es"
| "waits (ev # es) = waits es"

text \<open>
  The run of the Backoff Retrier that starts with attempt \<open>a\<close> and ends with attempt
  \<open>k\<close>: attempt \<open>n\<close>, then a delay of \<open>2000 * n\<close> milliseconds, for each
  \<open>n\<close> from \<open>a\<close> up to but not including \<open>k\<close>, then attempt \<open>k\<close>.
\<close>

definition backoff_trace :: "request \<Rightarrow> nat \<Rightarrow> nat \<Rightarrow> event list" where
  "backoff_trace req a k =
    concat (map (\<lambda>n. [ImageCall n req, Wait (2000 * n)]) [a..<k]) @ [ImageCall k req]"

section \<open>Style application and masked edit (services/geminiService.ts)\<close>

text \<open>
  \<open>applyMasterStyle\<close> and \<open>editArchitecturalImage\<close> make a single call, answered
  by \<open>generateContent 1\<close>; \<open>Inl\<close> is the error they throw. \<open>getAIClient\<close>
  throws outside the \<open>try\<close> block.
\<close>

definition applyMasterStyle :: "env \<Rightarrow> string \<Rightarrow> string \<Rightarrow> string \<Rightarrow> js_error + string" where
  "applyMasterStyle e currentImageBase64 originalPrompt stylePrompt =
    (if apiKey e = [] then
       Inl (new_Error ''API Key is missing. Please check your environment variables.'')
     else
       (case generateContent e 1
               \<lparr>model = ''gemini-2.5-flash-image'',
                parts = [InlineData currentImageBase64 ''image/png'',
                         TextPart (''Apply style: '' @ dquote @ stylePrompt @ dquote
                                   @ '' to this image. Keep geometry. Photorealistic.'')],
                aspectRatio = None\<rparr> of
          Inl err \<Rightarrow> Inl (new_Error (''Filter failed: '' @ js_str (message err)))
        | Inr resp \<Rightarrow>
            (case find is_inlineData (candidate_parts resp) of
               Some (InlineData d m) \<Rightarrow>
                 if d \<noteq> [] then Inr d
                 else Inl (new_Error (''Filter failed: '' @ ''No image returned.''))
             | _ \<Rightarrow> Inl (new_Error (''Filter failed: '' @ ''No image returned.'')))))"

definition editArchitecturalImage :: "env \<Rightarrow> string \<Rightarrow> string \<Rightarrow> string \<Rightarrow> js_error + string" where
  "editArchitecturalImage e originalImageBase64 maskImageBase64 editPrompt =
    (if apiKey e = [] then
       Inl (new_Error ''API Key is missing. Please check your environment variables.'')
     else
       (case generateContent e 1
               \<lparr>model = ''gemini-2.5-flash-image'',
                parts = [InlineData originalImageBase64 ''image/png'',
                         InlineData maskImageBase64 ''image/png'',
                         TextPart (''Edit masked area: '' @ dquote @ editPrompt @ dquote
                                   @ ''. Blend seamless.'')],
                aspectRatio = None\<rparr> of
          Inl err \<Rightarrow> Inl (new_Error (''Edit failed: '' @ js_str (message err)))
        | Inr resp \<Rightarrow>
            (case find is_inlineData (candidate_parts resp) of
               Some (InlineData d m) \<Rightarrow>
                 if d \<noteq> [] then Inr d
                 else Inl (new_Error (''Edit failed: '' @ ''No edited image returned.''))
             | _ \<Rightarrow> Inl (new_Error (''Edit failed: '' @ ''No edited image returned.'')))))"

section \<open>Application state and handlers (App.tsx)\<close>

text \<open>The two entries of the translation table the handlers show.\<close>

datatype ui_message = errorSketch | errorGeneric

datatype edit_target = original | styled

record app_state =
  app_sketch :: "UploadedImage list"
  app_context :: "UploadedImage list"
  app_references :: "UploadedImage list"
  app_userPrompt :: string
  app_params :: GenerationParams
  app_result :: "PromptResult option"
  app_styledResult :: "PromptResult option"
  app_history :: "PromptResult list"
  app_status :: PipelineStatus
  app_error :: "ui_message option"
  app_editingTarget :: "edit_target option"

definition initial_state :: app_state where
  "initial_state =
    \<lparr>app_sketch = [], app_context = [], app_references = [], app_userPrompt = [],
     app_params = \<lparr>lighting = Sunny, sunDirection = TopLeft, weather = Clear, language = English\<rparr>,
     app_result = None, app_styledResult = None, app_history = [],
     app_status = idle, app_error = None, app_editingTarget = None\<rparr>"

text \<open>The updater passed to \<open>setHistory\<close>: \<open>[r, ...prev].slice(0, 3)\<close>.\<close>

definition addToHistory :: "PromptResult \<Rightarrow> PromptResult list \<Rightarrow> PromptResult list" where
  "addToHistory r prev = take 3 (r # prev)"

text \<open>
  Each handler is modelled by the state it leaves when its promise settles; the
  environment answers the remote calls it makes.
\<close>

definition handleGenerate :: "env \<Rightarrow> string option \<Rightarrow> app_state \<Rightarrow> app_state" where
  "handleGenerate e masterStylePrompt s =
    (if app_sketch s = [] then s\<lparr>app_error := Some errorSketch\<rparr>
     else
       (let s1 = s\<lparr>app_status := analyzing, app_error := None, app_result := None,
                    app_styledResult := None, app_editingTarget := None\<rparr>
        in case snd (generateArchitecturalPrompt e (hd (app_sketch s))
                       (case app_context s of [] \<Rightarrow> None | c # cs \<Rightarrow> Some c)
                       (app_references s) (app_params s) (app_userPrompt s) masterStylePrompt) of
             Inr generatedResult \<Rightarrow>
               s1\<lparr>app_result := Some generatedResult,
                   app_history := addToHistory generatedResult (app_history s1),
                   app_status := idle\<rparr>
           | Inl err \<Rightarrow> s1\<lparr>app_error := Some errorGeneric, app_status := idle\<rparr>))"

text \<open>\<open>sourceResult?.imageData\<close> is truthy: the result exists and its image is a non-empty string.\<close>

definition has_imageData :: "PromptResult option \<Rightarrow> bool" where
  "has_imageData r =
    (case r of None \<Rightarrow> False
     | Some res \<Rightarrow> (case imageData res of None \<Rightarrow> False | Some d \<Rightarrow> d \<noteq> []))"

definition handleMasterStyleClick ::
  "env \<Rightarrow> edit_target \<Rightarrow> string \<Rightarrow> app_state \<Rightarrow> app_state" where
  "handleMasterStyleClick e source stylePrompt s =
    (let sourceResult = (if source = original then app_result s else app_styledResult s) in
     if \<not> has_imageData sourceResult then handleGenerate e (Some stylePrompt) s
     else
       (let s1 = s\<lparr>app_status := generating, app_error := None, app_editingTarget := None\<rparr>
        in case applyMasterStyle e (the (imageData (the sourceResult)))
                  (prompt (the sourceResult)) stylePrompt of
             Inr styledImageData \<Rightarrow>
               (let newResult =
                      \<lparr>res_id = toString (clock e 0),
                       prompt = ''[MASTER FILTER APPLIED] '' @ prompt (the sourceResult),
                       imageData = Some styledImageData,
                       error = None,
                       timestamp = clock e 1\<rparr>
                in s1\<lparr>app_styledResult := Some newResult,
                       app_history := addToHistory newResult (app_history s1),
                       app_status := idle\<rparr>)
           | Inl err \<Rightarrow> s1\<lparr>app_error := Some errorGeneric, app_status := idle\<rparr>))"

definition handleApplyEdit :: "env \<Rightarrow> string \<Rightarrow> string \<Rightarrow> app_state \<Rightarrow> app_state" where
  "handleApplyEdit e maskData editPrompt s =
    (let targetResult =
           (if app_editingTarget s = Some original then app_result s else app_styledResult s) in
     if \<not> has_imageData targetResult then s
     else
       (let s1 = s\<lparr>app_status := editing\<rparr>
        in case editArchitecturalImage e (the (imageData (the targetResult))) maskData editPrompt of
             Inr newImageData \<Rightarrow>
               (let updatedResult =
                      (the targetResult)\<lparr>imageData := Some newImageData,
                                          res_id := toString (clock e 0),
                                          timestamp := clock e 1\<rparr>;
                    s2 = (if app_editingTarget s = Some original
                          then s1\<lparr>app_result := Some updatedResult\<rparr>
                          else s1\<lparr>app_styledResult := Some updatedResult\<rparr>)
                in s2\<lparr>app_history := addToHistory updatedResult (app_history s2),
                       app_editingTarget := None,
                       app_status := idle\<rparr>)
           | Inl err \<Rightarrow> s1\<lparr>app_error := Some errorGeneric, app_status := idle\<rparr>))"

text \<open>A user action together with the environment that answers its remote calls.\<close>

datatype action =
    Generate env "string option"
  | MasterStyleClick env edit_target string
  | ApplyEdit env string string

fun step :: "action \<Rightarrow> app_state \<Rightarrow> app_state" where
  "step (Generate e masterStylePrompt) s = handleGenerate e masterStylePrompt s"
| "step (MasterStyleClick e source stylePrompt) s = handleMasterStyleClick e source stylePrompt s"
| "step (ApplyEdit e maskData editPrompt) s = handleApplyEdit e maskData editPrompt s"

definition run :: "action list \<Rightarrow> app_state \<Rightarrow> app_state" where
  "run acts s = foldl (\<lambda>st a. step a st) s acts"

section \<open>Mask canvas (components/InpaintingCanvas.tsx)\<close>

text \<open>
  \<open>ImageData\<close>: pixel dimensions and the flat \<open>Uint8ClampedArray\<close> of RGBA bytes,
  four per pixel, rows from top to bottom. The raster of a canvas element is modelled by
  the same record.
\<close>

type_synonym byte = "8 word"

record ImageData =
  px_width :: nat
  px_height :: nat
  px_data :: "byte list"

record DOMRect =
  rect_left :: real
  rect_top :: real
  rect_width :: real
  rect_height :: real

datatype pointer_event = MouseEvent real real | TouchEvent "(real \<times> real) list"

text \<open>
  The component: the raster of the drawing canvas, the React state \<open>isDrawing\<close>,
  \<open>brushSize\<close> and \<open>historyStep\<close>, the array held by \<open>historyRef\<close>, and the
  value last handed to \<open>onMaskReady\<close> (the pixels that \<open>toDataURL\<close> encodes as PNG,
  a lossless format).
\<close>

record canvas_state =
  canvas :: ImageData
  isDrawing :: bool
  brushSize :: nat
  historyStep :: nat
  historyRef :: "ImageData list"
  maskReady :: "ImageData option"

subsection \<open>The 2D context operations the component calls\<close>

text \<open>Setting \<open>canvas.width\<close> and \<open>canvas.height\<close> gives a transparent raster of that size.\<close>

definition blank :: "nat \<Rightarrow> nat \<Rightarrow> ImageData" where
  "blank w h = \<lparr>px_width = w, px_height = h, px_data = replicate (4 * w * h) 0\<rparr>"

text \<open>\<open>ctx.clearRect(0, 0, canvas.width, canvas.height)\<close>: every byte becomes 0.\<close>

definition clearRect :: "ImageData \<Rightarrow> ImageData" where
  "clearRect c = c\<lparr>px_data := replicate (length (px_data c)) 0\<rparr>"

text \<open>\<open>ctx.getImageData(0, 0, canvas.width, canvas.height)\<close>: a copy of the whole raster.\<close>

definition getImageData :: "ImageData \<Rightarrow> ImageData" where
  "getImageData c = \<lparr>px_width = px_width c, px_height = px_height c, px_data = px_data c\<rparr>"

text \<open>
  \<open>ctx.putImageData(img, 0, 0)\<close>: the bytes of every pixel of the raster that lies
  inside the image are replaced by the image's bytes; the other pixels stay.
\<close>

definition putImageData :: "ImageData \<Rightarrow> ImageData \<Rightarrow> ImageData" where
  "putImageData img c =
    c\<lparr>px_data :=
        map (\<lambda>i. let p = i div 4; ch = i mod 4; x = p mod px_width c; y = p div px_width c
                 in if x < px_width img \<and> y < px_height img
                    then px_data img ! (4 * (y * px_width img + x) + ch)
                    else px_data c ! i)
            [0..<length (px_data c)]\<rparr>"

text \<open>\<open>ctx.fillStyle = 'black'; ctx.fillRect(0, 0, w, h)\<close> on a fresh canvas.\<close>

definition fillBlack :: "nat \<Rightarrow> nat \<Rightarrow> ImageData" where
  "fillBlack w h =
    \<lparr>px_width = w, px_height = h, px_data = concat (replicate (w * h) [0, 0, 0, 255])\<rparr>"

text \<open>
  Source-over compositing of one colour channel \<open>cs\<close> with alpha \<open>a\<close> onto an
  opaque destination channel \<open>cd\<close>, rounded to the nearest byte.
\<close>

definition over :: "byte \<Rightarrow> byte \<Rightarrow> byte \<Rightarrow> byte" where
  "over cs a cd = of_nat ((unat cs * unat a + unat cd * (255 - unat a) + 127) div 255)"

text \<open>
  \<open>ctx.drawImage(canvas, 0, 0)\<close> with \<open>globalCompositeOperation = 'source-over'\<close>
  onto an opaque raster of the same size: pixel by pixel, the destination stays opaque.
\<close>

fun drawImage :: "byte list \<Rightarrow> byte list \<Rightarrow> byte list" where
  "drawImage (r # g # b # a # src) (r' # g' # b' # a' # dst) =
     over r a r' # over g a g' # over b a b' # a' # drawImage src dst"
| "drawImage src dst = dst"

subsection \<open>exportMask\<close>

text \<open>
  The loop \<open>for (let i = 0; i < data.length; i += 4)\<close> from index \<open>i\<close> on. A
  write past the end of a typed array is ignored, as list update is.
\<close>

function thresholdLoop :: "nat \<Rightarrow> byte list \<Rightarrow> byte list" where
  "thresholdLoop i d =
    (if i < length d then
       thresholdLoop (i + 4)
         (if 20 < d ! i then d[i := 255, i + 1 := 255, i + 2 := 255] else d)
     else d)"
  by pat_completeness auto
termination
  by (relation "measure (\<lambda>(i, d). length d - i)") auto

declare thresholdLoop.simps [simp del]

definition exportMask :: "canvas_state \<Rightarrow> canvas_state" where
  "exportMask s =
    (let offscreen = fillBlack (px_width (canvas s)) (px_height (canvas s));
         composed = drawImage (px_data (canvas s)) (px_data offscreen);
         imageData = offscreen\<lparr>px_data := thresholdLoop 0 composed\<rparr>
     in s\<lparr>maskReady := Some imageData\<rparr>)"

subsection \<open>History\<close>

text \<open>The \<open>onload\<close> handler of the base image, for an image of \<open>w\<close> by \<open>h\<close> pixels.\<close>

definition onload :: "nat \<Rightarrow> nat \<Rightarrow> canvas_state \<Rightarrow> canvas_state" where
  "onload w h s =
    (let c = clearRect (blank w h); initialData = getImageData c
     in s\<lparr>canvas := c, historyRef := [initialData], historyStep := 0\<rparr>)"

definition saveHistoryState :: "canvas_state \<Rightarrow> canvas_state" where
  "saveHistoryState s =
    (let currentData = getImageData (canvas s);
         newHistory = take (historyStep s + 1) (historyRef s) @ [currentData]
     in exportMask (s\<lparr>historyRef := newHistory, historyStep := length newHistory - 1\<rparr>))"

definition stopDrawing :: "canvas_state \<Rightarrow> canvas_state" where
  "stopDrawing s = (if isDrawing s then saveHistoryState (s\<lparr>isDrawing := False\<rparr>) else s)"

text \<open>
  \<open>historyRef.current[newStep]\<close> outside the array is \<open>undefined\<close>, on which
  \<open>putImageData\<close> throws; the handler then leaves the state as it was.
\<close>

definition handleUndo :: "canvas_state \<Rightarrow> canvas_state" where
  "handleUndo s =
    (if 0 < historyStep s then
       (let newStep = historyStep s - 1 in
        if newStep < length (historyRef s) then
          exportMask (s\<lparr>canvas := putImageData (historyRef s ! newStep) (canvas s),
                         historyStep := newStep\<rparr>)
        else s)
     else s)"

definition handleRedo :: "canvas_state \<Rightarrow> canvas_state" where
  "handleRedo s =
    (if int (historyStep s) < int (length (historyRef s)) - 1 then
       (let newStep = historyStep s + 1 in
        exportMask (s\<lparr>canvas := putImageData (historyRef s ! newStep) (canvas s),
                       historyStep := newStep\<rparr>))
     else s)"

definition clearCanvas :: "canvas_state \<Rightarrow> canvas_state" where
  "clearCanvas s = saveHistoryState (s\<lparr>canvas := clearRect (canvas s)\<rparr>)"

text \<open>
  The state between gestures: the cursor is inside the history, and the raster and every
  snapshot hold four bytes for each pixel of the same \<open>width\<close> by \<open>height\<close> grid.
\<close>

definition sized :: "nat \<Rightarrow> nat \<Rightarrow> ImageData \<Rightarrow> bool" where
  "sized w h img = (px_width img = w \<and> px_height img = h \<and> length (px_data img) = 4 * w * h)"

definition history_inv :: "canvas_state \<Rightarrow> bool" where
  "history_inv s =
    (historyStep s < length (historyRef s)
     \<and> sized (px_width (canvas s)) (px_height (canvas s)) (canvas s)
     \<and> list_all (sized (px_width (canvas s)) (px_height (canvas s))) (historyRef s))"

datatype history_op = Undo | Redo

fun apply_op :: "history_op \<Rightarrow> canvas_state \<Rightarrow> canvas_state" where
  "apply_op Undo s = handleUndo s"
| "apply_op Redo s = handleRedo s"

subsection \<open>Coordinate mapping in draw\<close>

text \<open>\<open>e.touches[0]\<close> of an event without touches is undefined, and reading it throws.\<close>

definition client_pos :: "pointer_event \<Rightarrow> (real \<times> real) option" where
  "client_pos e =
    (case e of
       MouseEvent clientX clientY \<Rightarrow> Some (clientX, clientY)
     | TouchEvent touches \<Rightarrow> (case touches of [] \<Rightarrow> None | t # ts \<Rightarrow> Some t))"

text \<open>
  \<open>draw\<close> up to its calls of the path API: the point handed to \<open>lineTo\<close> and
  \<open>moveTo\<close> and the value of \<open>lineWidth\<close>; \<open>None\<close> when the handler returns early
  or throws. The arithmetic is that of doubles; \<open>canvas.width\<close> and
  \<open>brushSize\<close> are integers and so doubles as they stand.
\<close>

definition draw :: "canvas_state \<Rightarrow> DOMRect \<Rightarrow> pointer_event \<Rightarrow> (real \<times> real \<times> real) option" where
  "draw s rect e =
    (if \<not> isDrawing s then None
     else case client_pos e of
       None \<Rightarrow> None
     | Some (clientX, clientY) \<Rightarrow>
         (let x = js_mul (js_sub clientX (rect_left rect))
                    (js_div (real (px_width (canvas s))) (rect_width rect));
              y = js_mul (js_sub clientY (rect_top rect))
                    (js_div (real (px_height (canvas s))) (rect_height rect));
              lineWidth = js_mul (real (brushSize s))
                    (js_div (real (px_width (canvas s))) (rect_width rect))
          in Some (x, y, lineWidth)))"

text \<open>
  Modelled from the spec: the mapping back from raster space to the display, of which the
  round-trip property speaks. The source has no such function. It undoes the two
  assignments of \<open>draw\<close> with the same scale factors, in double arithmetic:
  \<open>screen_x = raster_x / (canvas.width / rect.width) + rect.left\<close>, and the same for
  \<open>y\<close>.
\<close>

definition to_display :: "DOMRect \<Rightarrow> ImageData \<Rightarrow> real \<times> real \<Rightarrow> real \<times> real" where
  "to_display rect c p =
    (js_add (js_div (fst p) (js_div (real (px_width c)) (rect_width rect))) (rect_left rect),
     js_add (js_div (snd p) (js_div (real (px_height c)) (rect_height rect))) (rect_top rect))"

section \<open>Sample inputs\<close>

subsection \<open>Sample environments\<close>

text \<open>A service that returns an image at once.\<close>

definition sample_image :: response where
  "sample_image = \<lparr>resp_text = None, candidate_parts = [InlineData ''iVBOR'' ''image/png'']\<rparr>"

definition sample_text :: response where
  "sample_text = \<lparr>resp_text = Some ''A house'', candidate_parts = []\<rparr>"

text \<open>
  A service whose first image attempt is overloaded, whose second is out of quota and
  whose third returns an image.
\<close>

definition env_retry :: env where
  "env_retry =
    \<lparr>apiKey = ''key'',
     resizeImage = (\<lambda>k f. Some ''AAAA''),
     generateContent = (\<lambda>n r.
        if n = 0 then Inr sample_text
        else if n = 1 then Inl (new_Error ''503'')
        else if n = 2 then Inl (new_Error ''429'')
        else Inr sample_image),
     clock = (\<lambda>k. 1700000000000 + k)\<rparr>"

text \<open>A service that refuses the first image attempt on policy grounds.\<close>

definition env_safety :: env where
  "env_safety =
    \<lparr>apiKey = ''key'',
     resizeImage = (\<lambda>k f. Some ''AAAA''),
     generateContent = (\<lambda>n r.
        if n = 0 then Inr sample_text else Inl (new_Error ''Safety'')),
     clock = (\<lambda>k. 1700000000000 + k)\<rparr>"

text \<open>A service that is overloaded at every image attempt.\<close>

definition env_overloaded :: env where
  "env_overloaded =
    \<lparr>apiKey = ''key'',
     resizeImage = (\<lambda>k f. Some ''AAAA''),
     generateContent = (\<lambda>n r.
        if n = 0 then Inr sample_text else Inl (new_Error ''503'')),
     clock = (\<lambda>k. 1700000000000 + k)\<rparr>"

text \<open>A service whose text call fails.\<close>

definition env_text_fails :: env where
  "env_text_fails =
    \<lparr>apiKey = ''key'',
     resizeImage = (\<lambda>k f. Some ''AAAA''),
     generateContent = (\<lambda>n r. if n = 0 then Inl (new_Error ''500'') else Inr sample_image),
     clock = (\<lambda>k. 1700000000000 + k)\<rparr>"

text \<open>A service whose text call returns the empty string.\<close>

definition env_empty_text :: env where
  "env_empty_text =
    \<lparr>apiKey = ''key'',
     resizeImage = (\<lambda>k f. Some ''AAAA''),
     generateContent = (\<lambda>n r.
        if n = 0 then Inr \<lparr>resp_text = Some [], candidate_parts = []\<rparr> else Inr sample_image),
     clock = (\<lambda>k. 1700000000000 + k)\<rparr>"

definition sample_sketch :: UploadedImage where
  "sample_sketch =
    \<lparr>img_file = \<lparr>file_name = ''sketch.png'', file_type = ''image/png''\<rparr>,
     previewUrl = ''blob:1'', img_id = ''s1'', width = Some 1600, height = Some 900\<rparr>"

definition sample_params :: GenerationParams where
  "sample_params =
    \<lparr>lighting = Sunny, sunDirection = TopLeft, weather = Clear, language = English\<rparr>"

definition sample_request :: request where
  "sample_request =
    imageRequest [InlineData ''AAAA'' ''image/png'', TextPart (imageGenPrompt None ''A house'')]
      ''16:9''"

subsection \<open>Sample application state\<close>

definition sample_result :: PromptResult where
  "sample_result =
    \<lparr>res_id = ''1'', prompt = ''A house'', imageData = Some ''iVBOR'', error = None,
     timestamp = 1\<rparr>"

text \<open>A state with a sketch, a result with an image, and a full history.\<close>

definition sample_state :: app_state where
  "sample_state =
    initial_state
      \<lparr>app_sketch := [sample_sketch],
       app_result := Some sample_result,
       app_history := [sample_result\<lparr>res_id := ''3''\<rparr>, sample_result\<lparr>res_id := ''2''\<rparr>,
                       sample_result],
       app_editingTarget := Some original\<rparr>"

subsection \<open>Sample canvas states\<close>

text \<open>
  A raster of one pixel painted once with the stroke colour \<open>rgba(6, 182, 212, 0.7)\<close>,
  and three states of a one-pixel canvas: after that stroke and before its commit, after
  the commit, and after an undo of the commit.
\<close>

definition painted :: ImageData where
  "painted = \<lparr>px_width = 1, px_height = 1, px_data = [6, 182, 212, 179]\<rparr>"


definition canvas_committed :: canvas_state where
  "canvas_committed =
    \<lparr>canvas = painted, isDrawing = False, brushSize = 30, historyStep = 1,
     historyRef = [blank 1 1, painted], maskReady = None\<rparr>"

definition canvas_undone :: canvas_state where
  "canvas_undone =
    \<lparr>canvas = blank 1 1, isDrawing = False, brushSize = 30, historyStep = 0,
     historyRef = [blank 1 1, painted], maskReady = None\<rparr>"

section \<open>Facts about double-precision rounding\<close>

lemma bits_nonpos [simp]: "n \<le> 0 \<Longrightarrow> bits n = 0"
  by (subst bits.simps) simp

lemma bits_pos: "0 < n \<Longrightarrow> bits n = bits (n div 2) + 1"
  by (subst bits.simps) simp

lemma bits_bounds:
  "0 < n \<Longrightarrow> 1 \<le> bits n \<and> 2 ^ nat (bits n - 1) \<le> n \<and> n < 2 ^ nat (bits n)"
proof (induction n rule: bits.induct)
  case (1 n)
  show ?case
  proof (cases "n div 2 \<le> 0")
    case True
    with "1.prems" have "n = 1" by linarith
    then show ?thesis by (simp add: bits_pos)
  next
    case False
    then have pos: "0 < n div 2" by simp
    from "1.prems" have "\<not> n \<le> 0" by simp
    from "1.IH" [OF this pos]
    have b: "1 \<le> bits (n div 2)"
      and lo: "2 ^ nat (bits (n div 2) - 1) \<le> n div 2"
      and hi: "n div 2 < 2 ^ nat (bits (n div 2))"
      by simp_all
    let ?b = "bits (n div 2)"
    have eq: "bits n = ?b + 1" using "1.prems" by (rule bits_pos)
    have "nat ?b = Suc (nat (?b - 1))" using b by linarith
    then have p: "(2::int) ^ nat ?b = 2 * 2 ^ nat (?b - 1)" by simp
    have "2 * (n div 2) \<le> n" by simp
    with lo p have l: "2 ^ nat ?b \<le> n" by linarith
    have "n < 2 * (n div 2) + 2" by simp
    moreover have "nat (?b + 1) = Suc (nat ?b)" using b by linarith
    then have p2: "(2::int) ^ nat (?b + 1) = 2 * 2 ^ nat ?b" by simp
    ultimately have h: "n < 2 ^ nat (?b + 1)" using hi by linarith
    from b l h eq show ?thesis by simp
  qed
qed

lemma pow2_powr: "pow2 e = 2 powr (real_of_int e)"
proof (cases "0 \<le> e")
  case True
  then have "real_of_int e = real (nat e)" by simp
  then have "2 powr (real_of_int e) = 2 ^ nat e"
    by (simp only: powr_realpow [of 2 "nat e", simplified])
  with True show ?thesis by (simp add: pow2_def)
next
  case False
  then have "real_of_int e = - real (nat (- e))" by simp
  then have "2 powr (real_of_int e) = 1 / 2 powr (real (nat (- e)))"
    by (simp only: powr_minus_divide)
  also have "\<dots> = 1 / 2 ^ nat (- e)"
    by (simp only: powr_realpow [of 2 "nat (- e)", simplified])
  finally show ?thesis using False by (simp add: pow2_def)
qed

lemma pow2_pos [simp]: "0 < pow2 e"
  by (simp add: pow2_powr)

lemma pow2_nonzero [simp]: "pow2 e \<noteq> 0"
  using pow2_pos [of e] by linarith

lemma pow2_add: "pow2 (a + b) = pow2 a * pow2 b"
  by (simp add: pow2_powr powr_add)

lemma pow2_nat: "0 \<le> e \<Longrightarrow> pow2 e = 2 ^ nat e"
  by (simp add: pow2_def)

text \<open>The exponent brackets its argument between two consecutive powers of two.\<close>

lemma expo_bounds:
  assumes "0 < x"
  shows "pow2 (expo x) \<le> x \<and> x < pow2 (expo x + 1)"
proof (cases "1 \<le> x")
  case True
  let ?n = "\<lfloor>x\<rfloor>"
  from True have n: "0 < ?n" by simp
  from bits_bounds [OF n]
  have b: "1 \<le> bits ?n" and lo: "2 ^ nat (bits ?n - 1) \<le> ?n" and hi: "?n < 2 ^ nat (bits ?n)"
    by simp_all
  have e: "expo x = bits ?n - 1" using True by (simp add: expo_def)
  have "real_of_int (2 ^ nat (bits ?n - 1)) \<le> real_of_int ?n"
    using lo by (simp only: of_int_le_iff)
  then have "2 ^ nat (bits ?n - 1) \<le> real_of_int ?n" by simp
  moreover have "real_of_int ?n \<le> x" by simp
  ultimately have "2 ^ nat (bits ?n - 1) \<le> x" by linarith
  then have l: "pow2 (expo x) \<le> x" using b e by (simp add: pow2_nat)
  have "?n + 1 \<le> 2 ^ nat (bits ?n)" using hi by simp
  then have "real_of_int (?n + 1) \<le> real_of_int (2 ^ nat (bits ?n))"
    by (simp only: of_int_le_iff)
  then have "real_of_int ?n + 1 \<le> 2 ^ nat (bits ?n)" by simp
  moreover have "x < real_of_int ?n + 1" by linarith
  ultimately have "x < 2 ^ nat (bits ?n)" by linarith
  then have h: "x < pow2 (expo x + 1)" using b e by (simp add: pow2_nat)
  from l h show ?thesis ..
next
  case False
  with assms have x1: "x < 1" by simp
  let ?y = "1 / x"
  let ?m = "\<lceil>?y\<rceil> - 1"
  from assms x1 have y1: "1 < ?y" by simp
  then have m: "0 < ?m" by linarith
  from bits_bounds [OF m]
  have b: "1 \<le> bits ?m" and lo: "2 ^ nat (bits ?m - 1) \<le> ?m" and hi: "?m < 2 ^ nat (bits ?m)"
    by simp_all
  have e: "expo x = - bits ?m" using False by (simp add: expo_def)
  have my: "real_of_int ?m < ?y" by linarith
  have ym: "?y \<le> real_of_int ?m + 1" by linarith
  have "?m + 1 \<le> 2 ^ nat (bits ?m)" using hi by simp
  then have "real_of_int (?m + 1) \<le> real_of_int (2 ^ nat (bits ?m))"
    by (simp only: of_int_le_iff)
  then have "real_of_int ?m + 1 \<le> 2 ^ nat (bits ?m)" by simp
  with ym have yhi: "?y \<le> 2 ^ nat (bits ?m)" by linarith
  have "real_of_int (2 ^ nat (bits ?m - 1)) \<le> real_of_int ?m"
    using lo by (simp only: of_int_le_iff)
  then have "2 ^ nat (bits ?m - 1) \<le> real_of_int ?m" by simp
  with my have ylo: "2 ^ nat (bits ?m - 1) < ?y" by linarith
  have l: "pow2 (expo x) \<le> x"
  proof -
    from yhi assms have "1 \<le> 2 ^ nat (bits ?m) * x"
      by (simp add: pos_divide_le_eq)
    then have "1 / 2 ^ nat (bits ?m) \<le> x"
      by (simp add: pos_divide_le_eq mult.commute)
    moreover have "pow2 (- bits ?m) = 1 / 2 ^ nat (bits ?m)"
      using b by (simp add: pow2_def)
    ultimately show ?thesis using e by simp
  qed
  have h: "x < pow2 (expo x + 1)"
  proof -
    from ylo assms have "2 ^ nat (bits ?m - 1) * x < 1"
      by (simp add: pos_less_divide_eq)
    then have "x < 1 / 2 ^ nat (bits ?m - 1)"
      by (simp add: pos_less_divide_eq mult.commute)
    moreover have "pow2 (- bits ?m + 1) = 1 / 2 ^ nat (bits ?m - 1)"
    proof (cases "bits ?m = 1")
      case True
      then show ?thesis by (simp add: pow2_def)
    next
      case False
      with b have "- bits ?m + 1 < 0" by simp
      moreover have "- (- bits ?m + 1) = bits ?m - 1" by simp
      ultimately show ?thesis by (simp add: pow2_def)
    qed
    ultimately show ?thesis using e by simp
  qed
  from l h show ?thesis ..
qed

lemma rne_near: "\<bar>real_of_int (rne m) - m\<bar> \<le> 1 / 2"
proof -
  let ?f = "\<lfloor>m\<rfloor>"
  let ?r = "m - real_of_int ?f"
  have r: "0 \<le> ?r" "?r < 1" by linarith+
  consider (lt) "?r < 1 / 2" | (gt) "1 / 2 < ?r" | (eq) "?r = 1 / 2" by linarith
  then show ?thesis
  proof cases
    case lt
    then have "rne m = ?f" by (simp add: rne_def Let_def)
    with r lt show ?thesis by simp
  next
    case gt
    then have "rne m = ?f + 1" by (simp add: rne_def Let_def)
    with r gt show ?thesis by simp
  next
    case eq
    then have "rne m = ?f \<or> rne m = ?f + 1" by (simp add: rne_def Let_def)
    with eq show ?thesis by auto
  qed
qed

lemma rne_ge_floor: "\<lfloor>m\<rfloor> \<le> rne m"
  unfolding rne_def Let_def by auto

text \<open>Rounding changes a number by at most the fraction \<open>2^-53\<close> of its magnitude.\<close>

lemma round_double_error: "\<bar>round_double x - x\<bar> \<le> \<bar>x\<bar> / 2 ^ 53"
proof (cases "x = 0")
  case True
  then show ?thesis by (simp add: round_double_def)
next
  case False
  let ?e = "expo \<bar>x\<bar> - 52"
  let ?m = "\<bar>x\<bar> / pow2 ?e"
  from False have ax: "0 < \<bar>x\<bar>" by simp
  from expo_bounds [OF ax] have lo: "pow2 (expo \<bar>x\<bar>) \<le> \<bar>x\<bar>" by simp
  have split: "pow2 (expo \<bar>x\<bar>) = pow2 ?e * 2 ^ 52"
    using pow2_add [of ?e 52] by (simp add: pow2_def)
  have rd: "round_double x = sgn x * real_of_int (rne ?m) * pow2 ?e"
    using False by (simp add: round_double_def Let_def)
  have xm: "x = sgn x * ?m * pow2 ?e"
    by (simp add: sgn_if abs_if)
  have "round_double x - x = sgn x * (real_of_int (rne ?m) - ?m) * pow2 ?e"
    using rd xm by (simp add: algebra_simps)
  then have "\<bar>round_double x - x\<bar> = \<bar>real_of_int (rne ?m) - ?m\<bar> * pow2 ?e"
    using False abs_of_pos [OF pow2_pos [of ?e]] by (simp add: abs_mult abs_sgn_eq)
  also have "\<dots> \<le> (1 / 2) * pow2 ?e"
    using rne_near [of ?m] pow2_pos [of ?e] by (intro mult_right_mono) linarith+
  also have "\<dots> = pow2 (expo \<bar>x\<bar>) / 2 ^ 53"
    using split by simp
  also have "\<dots> \<le> \<bar>x\<bar> / 2 ^ 53"
    using lo by (intro divide_right_mono) simp_all
  finally show ?thesis .
qed

lemma round_double_pos: "0 < x \<Longrightarrow> 0 < round_double x"
proof -
  assume x: "0 < x"
  let ?e = "expo \<bar>x\<bar> - 52"
  let ?m = "\<bar>x\<bar> / pow2 ?e"
  from x have ax: "0 < \<bar>x\<bar>" by simp
  from expo_bounds [OF ax] have lo: "pow2 (expo \<bar>x\<bar>) \<le> \<bar>x\<bar>" by simp
  have split: "pow2 (expo \<bar>x\<bar>) = pow2 ?e * 2 ^ 52"
    using pow2_add [of ?e 52] by (simp add: pow2_def)
  have "2 ^ 52 * pow2 ?e \<le> \<bar>x\<bar>"
    using lo split by (simp add: mult.commute)
  then have "2 ^ 52 \<le> ?m"
    by (simp add: pos_le_divide_eq)
  moreover have "(1::real) \<le> 2 ^ 52" by simp
  ultimately have "1 \<le> ?m" by linarith
  then have "1 \<le> \<lfloor>?m\<rfloor>" by simp
  with rne_ge_floor [of ?m] have "0 < rne ?m" by linarith
  then have "0 < real_of_int (rne ?m) * pow2 ?e" by simp
  with x show ?thesis by (simp add: round_double_def Let_def)
qed

subsection \<open>Accumulated rounding error of the coordinate mapping\<close>

text \<open>
  Each operation is off by at most \<open>2^-53\<close> of its exact result
  (\<open>round_double_error\<close>). The next lemmas add these errors up along the two
  chains of operations that occur in the coordinate mapping.
\<close>

lemma abs_le_of_error:
  fixes x y :: real
  shows "\<bar>y - x\<bar> \<le> \<bar>x\<bar> / 2 ^ 53 \<Longrightarrow> \<bar>y\<bar> \<le> \<bar>x\<bar> + \<bar>x\<bar> / 2 ^ 53"
  by linarith

lemma roundtrip_chain:
  fixes A C D T QD QA Z BZ :: real
  assumes "0 \<le> A" and "D \<le> A + A / 2 ^ 53" and "T \<le> D + D / 2 ^ 53"
    and "QD \<le> T / 2 ^ 53 + D / 2 ^ 53" and "QA \<le> QD + A / 2 ^ 53"
    and "Z \<le> C + QA" and "BZ \<le> Z / 2 ^ 53"
  shows "BZ + QA \<le> (4 * A + C) / 2 ^ 53"
  using assms by simp

lemma roundtrip_bound:
  assumes s: "0 < s"
  shows "\<bar>js_add (js_div (js_mul (js_sub c l) s) s) l - c\<bar> \<le> (4 * \<bar>c - l\<bar> + \<bar>c\<bar>) / 2 ^ 53"
proof -
  define a where "a = c - l"
  define d where "d = round_double a"
  define x where "x = round_double (d * s)"
  define t where "t = x / s"
  define q where "q = round_double t"
  define z where "z = q + l"
  define bk where "bk = round_double z"
  have e1: "\<bar>d - a\<bar> \<le> \<bar>a\<bar> / 2 ^ 53" unfolding d_def by (rule round_double_error)
  have e2: "\<bar>x - d * s\<bar> \<le> \<bar>d * s\<bar> / 2 ^ 53" unfolding x_def by (rule round_double_error)
  have e3: "\<bar>q - t\<bar> \<le> \<bar>t\<bar> / 2 ^ 53" unfolding q_def by (rule round_double_error)
  have e4: "\<bar>bk - z\<bar> \<le> \<bar>z\<bar> / 2 ^ 53" unfolding bk_def by (rule round_double_error)
  have "t - d = (x - d * s) / s" using s by (simp add: t_def field_simps)
  then have "\<bar>t - d\<bar> = \<bar>x - d * s\<bar> / s" using s by (simp add: abs_divide)
  also have "\<dots> \<le> (\<bar>d * s\<bar> / 2 ^ 53) / s"
    using e2 s by (intro divide_right_mono) simp_all
  also have "\<dots> = \<bar>d\<bar> / 2 ^ 53" using s by (simp add: abs_mult)
  finally have td: "\<bar>t - d\<bar> \<le> \<bar>d\<bar> / 2 ^ 53" .
  have h1: "\<bar>d\<bar> \<le> \<bar>a\<bar> + \<bar>a\<bar> / 2 ^ 53" using e1 by (rule abs_le_of_error)
  have h2: "\<bar>t\<bar> \<le> \<bar>d\<bar> + \<bar>d\<bar> / 2 ^ 53" using td by (rule abs_le_of_error)
  have h3: "\<bar>q - d\<bar> \<le> \<bar>t\<bar> / 2 ^ 53 + \<bar>d\<bar> / 2 ^ 53" using e3 td by linarith
  have h4: "\<bar>q - a\<bar> \<le> \<bar>q - d\<bar> + \<bar>a\<bar> / 2 ^ 53" using e1 by linarith
  have zc: "z - c = q - a" by (simp add: z_def a_def)
  then have h5: "\<bar>z\<bar> \<le> \<bar>c\<bar> + \<bar>q - a\<bar>" by linarith
  have "\<bar>bk - z\<bar> + \<bar>q - a\<bar> \<le> (4 * \<bar>a\<bar> + \<bar>c\<bar>) / 2 ^ 53"
    using roundtrip_chain [of "\<bar>a\<bar>" "\<bar>d\<bar>" "\<bar>t\<bar>" "\<bar>q - d\<bar>" "\<bar>q - a\<bar>" "\<bar>z\<bar>" "\<bar>c\<bar>" "\<bar>bk - z\<bar>"]
      h1 h2 h3 h4 h5 e4 by simp
  moreover have "\<bar>bk - c\<bar> \<le> \<bar>bk - z\<bar> + \<bar>q - a\<bar>" using zc by linarith
  ultimately have "\<bar>bk - c\<bar> \<le> (4 * \<bar>a\<bar> + \<bar>c\<bar>) / 2 ^ 53" by linarith
  then show ?thesis
    by (simp add: bk_def z_def q_def t_def x_def d_def a_def js_add_def js_div_def js_mul_def
        js_sub_def)
qed

lemma scale_chain:
  fixes P DS E :: real
  assumes "0 \<le> P" and "E \<le> (P / 2 ^ 53 + P / 2 ^ 53 / 2 ^ 53) + P / 2 ^ 53"
    and "DS \<le> P + E"
  shows "DS / 2 ^ 53 + E \<le> 4 * P / 2 ^ 53"
  using assms by simp

lemma le_chain:
  fixes X A B C R :: real
  shows "X \<le> C + B \<Longrightarrow> C \<le> A \<Longrightarrow> A + B \<le> R \<Longrightarrow> X \<le> R"
  by linarith

lemma scale_bound:
  "\<bar>js_mul (js_sub c l) (js_div n w) - (c - l) * (n / w)\<bar> \<le> 4 * \<bar>(c - l) * (n / w)\<bar> / 2 ^ 53"
proof -
  define a where "a = c - l"
  define S where "S = n / w"
  define d where "d = round_double a"
  define s where "s = round_double S"
  define x where "x = round_double (d * s)"
  define P where "P = \<bar>a\<bar> * \<bar>S\<bar>"
  have P0: "0 \<le> P" by (simp add: P_def)
  have e1: "\<bar>d - a\<bar> \<le> \<bar>a\<bar> / 2 ^ 53" unfolding d_def by (rule round_double_error)
  have e2: "\<bar>s - S\<bar> \<le> \<bar>S\<bar> / 2 ^ 53" unfolding s_def by (rule round_double_error)
  have e3: "\<bar>x - d * s\<bar> \<le> \<bar>d * s\<bar> / 2 ^ 53" unfolding x_def by (rule round_double_error)
  have h1: "\<bar>d\<bar> \<le> \<bar>a\<bar> + \<bar>a\<bar> / 2 ^ 53" using e1 by (rule abs_le_of_error)
  have m1: "\<bar>d\<bar> * \<bar>s - S\<bar> \<le> (\<bar>a\<bar> + \<bar>a\<bar> / 2 ^ 53) * (\<bar>S\<bar> / 2 ^ 53)"
    using h1 e2 by (intro mult_mono) simp_all
  have m2: "\<bar>d - a\<bar> * \<bar>S\<bar> \<le> (\<bar>a\<bar> / 2 ^ 53) * \<bar>S\<bar>"
    using e1 by (intro mult_right_mono) simp_all
  have split: "d * s - a * S = d * (s - S) + (d - a) * S" by (simp add: algebra_simps)
  have "\<bar>d * s - a * S\<bar> \<le> \<bar>d\<bar> * \<bar>s - S\<bar> + \<bar>d - a\<bar> * \<bar>S\<bar>"
    unfolding split by (rule order_trans [OF abs_triangle_ineq]) (simp add: abs_mult)
  also have "\<dots> \<le> (\<bar>a\<bar> + \<bar>a\<bar> / 2 ^ 53) * (\<bar>S\<bar> / 2 ^ 53) + (\<bar>a\<bar> / 2 ^ 53) * \<bar>S\<bar>"
    using m1 m2 by linarith
  also have "\<dots> = (P / 2 ^ 53 + P / 2 ^ 53 / 2 ^ 53) + P / 2 ^ 53"
    by (simp add: P_def algebra_simps)
  finally have E: "\<bar>d * s - a * S\<bar> \<le> (P / 2 ^ 53 + P / 2 ^ 53 / 2 ^ 53) + P / 2 ^ 53" .
  have aS: "\<bar>a * S\<bar> = P" by (simp add: P_def abs_mult)
  have "d * s = a * S + (d * s - a * S)" by simp
  then have "\<bar>d * s\<bar> \<le> \<bar>a * S\<bar> + \<bar>d * s - a * S\<bar>"
    by (simp only: abs_triangle_ineq)
  then have DS: "\<bar>d * s\<bar> \<le> P + \<bar>d * s - a * S\<bar>" by (simp only: aS)
  have sum: "\<bar>d * s\<bar> / 2 ^ 53 + \<bar>d * s - a * S\<bar> \<le> 4 * P / 2 ^ 53"
    using scale_chain [OF P0 E DS] .
  have "x - a * S = (x - d * s) + (d * s - a * S)" by simp
  then have tri: "\<bar>x - a * S\<bar> \<le> \<bar>x - d * s\<bar> + \<bar>d * s - a * S\<bar>"
    by (simp only: abs_triangle_ineq)
  have "\<bar>x - a * S\<bar> \<le> 4 * P / 2 ^ 53" by (rule le_chain [OF tri e3 sum])
  then have "\<bar>x - a * S\<bar> \<le> 4 * \<bar>a * S\<bar> / 2 ^ 53" by (simp only: aS)
  then show ?thesis
    by (simp add: x_def s_def d_def S_def a_def js_mul_def js_sub_def js_div_def)
qed

lemma js_div_pos: "0 < a \<Longrightarrow> 0 < b \<Longrightarrow> 0 < js_div a b"
  by (simp add: js_div_def round_double_pos)

section \<open>Properties of the aspect-ratio selector\<close>

lemma foldl_closer_first_nearest:
  "first_nearest (diff r) (t # ts) (foldl (closer r) t ts)"
proof (induction ts rule: rev_induct)
  case Nil
  show ?case by (simp add: first_nearest_def)
next
  case (snoc x xs)
  let ?b = "foldl (closer r) t xs"
  from snoc obtain i where i: "i < length (t # xs)" "(t # xs) ! i = ?b"
    and le: "\<forall>j < length (t # xs). diff r ?b \<le> diff r ((t # xs) ! j)"
    and lt: "\<forall>j < i. diff r ?b < diff r ((t # xs) ! j)"
    unfolding first_nearest_def by blast
  show ?case
  proof (cases "diff r x < diff r ?b")
    case True
    then have res: "foldl (closer r) t (xs @ [x]) = x" by (simp add: closer_def)
    have nth_old: "\<And>j. j < length (t # xs) \<Longrightarrow> ((t # xs) @ [x]) ! j = (t # xs) ! j"
      by (simp only: nth_append if_True)
    have "\<forall>j < length ((t # xs) @ [x]). diff r x \<le> diff r (((t # xs) @ [x]) ! j)"
    proof (intro allI impI)
      fix j assume "j < length ((t # xs) @ [x])"
      then consider "j < length (t # xs)" | "j = length (t # xs)" by force
      then show "diff r x \<le> diff r (((t # xs) @ [x]) ! j)"
      proof cases
        case 1
        with le True nth_old show ?thesis by fastforce
      next
        case 2
        then show ?thesis by (simp add: nth_append)
      qed
    qed
    moreover have "\<forall>j < length (t # xs). diff r x < diff r (((t # xs) @ [x]) ! j)"
      using le True nth_old by fastforce
    moreover have "((t # xs) @ [x]) ! length (t # xs) = x"
      by (simp add: nth_append)
    ultimately have "first_nearest (diff r) ((t # xs) @ [x]) x"
      unfolding first_nearest_def
      by (intro exI [of _ "length (t # xs)"]) simp
    with res show ?thesis by simp
  next
    case False
    then have res: "foldl (closer r) t (xs @ [x]) = ?b" by (simp add: closer_def)
    have nth_old: "\<And>j. j < length (t # xs) \<Longrightarrow> ((t # xs) @ [x]) ! j = (t # xs) ! j"
      by (simp only: nth_append if_True)
    have "\<forall>j < length ((t # xs) @ [x]). diff r ?b \<le> diff r (((t # xs) @ [x]) ! j)"
    proof (intro allI impI)
      fix j assume "j < length ((t # xs) @ [x])"
      then consider "j < length (t # xs)" | "j = length (t # xs)" by force
      then show "diff r ?b \<le> diff r (((t # xs) @ [x]) ! j)"
      proof cases
        case 1
        with le nth_old show ?thesis by fastforce
      next
        case 2
        with False show ?thesis by (simp add: nth_append)
      qed
    qed
    moreover have "\<forall>j < i. diff r ?b < diff r (((t # xs) @ [x]) ! j)"
      using lt i(1) nth_old by fastforce
    moreover have "((t # xs) @ [x]) ! i = ?b"
      using i nth_old by simp
    moreover have "i < length ((t # xs) @ [x])" using i(1) by simp
    ultimately have "first_nearest (diff r) ((t # xs) @ [x]) ?b"
      unfolding first_nearest_def by blast
    with res show ?thesis by simp
  qed
qed

lemma getBestAspectRatio_square: "getBestAspectRatio (Some 1000) (Some 1000) = ''1:1''"
  by (simp add: getBestAspectRatio_def falsy_num_def reduce_def targets_def closer_def diff_def
      js_div_def js_sub_def round_double_def expo_def pow2_def rne_def bits.simps Let_def)

lemma getBestAspectRatio_landscape: "getBestAspectRatio (Some 1600) (Some 900) = ''16:9''"
  by (simp add: getBestAspectRatio_def falsy_num_def reduce_def targets_def closer_def diff_def
      js_div_def js_sub_def round_double_def expo_def pow2_def rne_def bits.simps Let_def)

lemma getBestAspectRatio_portrait: "getBestAspectRatio (Some 900) (Some 1600) = ''9:16''"
  by (simp add: getBestAspectRatio_def falsy_num_def reduce_def targets_def closer_def diff_def
      js_div_def js_sub_def round_double_def expo_def pow2_def rne_def bits.simps Let_def)

lemma getBestAspectRatio_3111_2000: "getBestAspectRatio (Some 3111) (Some 2000) = ''16:9''"
  by (simp add: getBestAspectRatio_def falsy_num_def reduce_def targets_def closer_def diff_def
      js_div_def js_sub_def round_double_def expo_def pow2_def rne_def bits.simps Let_def)

text \<open>
  At 2333 x 2000 the exact differences to 1.0 and to 1.333 are equal (0.1665); the
  computed ones are 0.1665000000000001 and 0.16649999999999987, so the entry 4:3 wins.
\<close>

lemma getBestAspectRatio_2333_2000: "getBestAspectRatio (Some 2333) (Some 2000) = ''4:3''"
  by (simp add: getBestAspectRatio_def falsy_num_def reduce_def targets_def closer_def diff_def
      js_div_def js_sub_def round_double_def expo_def pow2_def rne_def bits.simps Let_def)

text \<open>
  C5, as stated, at the input 3111 x 2000. The ratio is 1.5555. With the ratio values
  4/3 and 16/9 the entry 4:3 is strictly nearer (distance 0.22217 against 0.22228), so no
  nearest entry of the exact table carries the identifier the code returns: the code
  compares against 1.333 and 1.777 and returns 16:9.
\<close>

theorem getBestAspectRatio_exact_counterexample:
  "\<not> (\<exists>t. first_nearest (exact_diff (3111 / 2000)) exact_targets t
        \<and> getBestAspectRatio (Some 3111) (Some 2000) = target_id t)"
proof
  assume "\<exists>t. first_nearest (exact_diff (3111 / 2000)) exact_targets t
        \<and> getBestAspectRatio (Some 3111) (Some 2000) = target_id t"
  then obtain t where t: "first_nearest (exact_diff (3111 / 2000)) exact_targets t"
    and tid: "target_id t = ''16:9''"
    using getBestAspectRatio_3111_2000 by auto
  from t obtain i where i: "i < length exact_targets" "exact_targets ! i = t"
    and le: "\<forall>j < length exact_targets.
        exact_diff (3111 / 2000) t \<le> exact_diff (3111 / 2000) (exact_targets ! j)"
    unfolding first_nearest_def by blast
  from i(1) have "i < 5" by (simp add: exact_targets_def)
  then consider "i = 0" | "i = 1" | "i = 2" | "i = 3" | "i = 4" by linarith
  then have "val t = 16 / 9"
    using i(2) tid by cases (auto simp: exact_targets_def)
  moreover have "(2::nat) < length exact_targets" by (simp add: exact_targets_def)
  with le have "exact_diff (3111 / 2000) t \<le> exact_diff (3111 / 2000) (exact_targets ! 2)"
    by blast
  ultimately show False by (simp add: exact_targets_def exact_diff_def)
qed

text \<open>
  C5, amended. For every width and height: when either is zero or unknown the selector
  returns 1:1; otherwise it returns the identifier of the entry of the code's table (the
  doubles 1.0, 0.75, 1.333, 0.5625, 1.777) whose computed difference
  \<open>Math.abs(val - width / height)\<close>, division and subtraction each rounded to a
  double, is least, the first-listed entry winning when computed differences are equal.
  1000 x 1000 gives 1:1, 1600 x 900 gives 16:9 and 900 x 1600 gives 9:16.
\<close>

theorem getBestAspectRatio_nearest:
  "(falsy_num w \<or> falsy_num h \<longrightarrow> getBestAspectRatio w h = ''1:1'')
   \<and> (\<not> falsy_num w \<and> \<not> falsy_num h \<longrightarrow>
        (\<exists>t. first_nearest (diff (js_div (the w) (the h))) targets t
           \<and> getBestAspectRatio w h = target_id t))
   \<and> getBestAspectRatio (Some 1000) (Some 1000) = ''1:1''
   \<and> getBestAspectRatio (Some 1600) (Some 900) = ''16:9''
   \<and> getBestAspectRatio (Some 900) (Some 1600) = ''9:16''"
proof -
  have tg: "targets = hd targets # tl targets" by (simp add: targets_def)
  have "first_nearest (diff r) targets (reduce (closer r) targets)" for r
    unfolding reduce_def
    using foldl_closer_first_nearest [of r "hd targets" "tl targets"] tg by simp
  then show ?thesis
    using getBestAspectRatio_square getBestAspectRatio_landscape getBestAspectRatio_portrait
    by (auto simp: getBestAspectRatio_def)
qed

theorem getBestAspectRatio_nearest_witness:
  "falsy_num None \<and> getBestAspectRatio None (Some 900) = ''1:1''
   \<and> falsy_num (Some 0) \<and> getBestAspectRatio (Some 0) (Some 900) = ''1:1''
   \<and> \<not> falsy_num (Some 1600) \<and> \<not> falsy_num (Some 900)
   \<and> (\<exists>t. first_nearest (diff (js_div 1600 900)) targets t \<and> target_id t = ''16:9'')"
  using getBestAspectRatio_nearest [of None "Some 900"]
    getBestAspectRatio_nearest [of "Some 0" "Some 900"]
    getBestAspectRatio_nearest [of "Some 1600" "Some 900"]
  by (auto simp: falsy_num_def)

section \<open>Facts about the JavaScript operators\<close>

lemma js_or_None [simp]: "js_or None b = b"
  by (simp add: js_or_def)

lemma js_or_empty [simp]: "js_or (Some []) b = b"
  by (simp add: js_or_def)

lemma js_or_Cons [simp]: "js_or (Some (c # cs)) b = c # cs"
  by (simp add: js_or_def)

lemma js_str_Some [simp]: "js_str (Some m) = m"
  by (simp add: js_str_def)

section \<open>Properties of the retry loop\<close>

lemma attempts_append: "attempts (xs @ ys) = attempts xs @ attempts ys"
  by (induction xs rule: attempts.induct) simp_all

lemma waits_append: "waits (xs @ ys) = waits xs @ waits ys"
  by (induction xs rule: waits.induct) simp_all

lemma attempts_backoff_trace: "a \<le> k \<Longrightarrow> attempts (backoff_trace req a k) = [a..<Suc k]"
proof -
  have "attempts (concat (map (\<lambda>n. [ImageCall n req, Wait (2000 * n)]) ns)) = ns" for ns
    by (induction ns) simp_all
  then show "a \<le> k \<Longrightarrow> attempts (backoff_trace req a k) = [a..<Suc k]"
    by (simp add: backoff_trace_def attempts_append)
qed

lemma waits_backoff_trace: "waits (backoff_trace req a k) = map (\<lambda>n. 2000 * n) [a..<k]"
proof -
  have "waits (concat (map (\<lambda>n. [ImageCall n req, Wait (2000 * n)]) ns)) = map (\<lambda>n. 2000 * n) ns" for ns
    by (induction ns) simp_all
  then show ?thesis
    by (simp add: backoff_trace_def waits_append)
qed

lemma backoff_trace_step:
  "a < k \<Longrightarrow> backoff_trace req a k = ImageCall a req # Wait (2000 * a) # backoff_trace req (Suc a) k"
  by (simp add: backoff_trace_def upt_conv_Cons)

lemma backoff_trace_same: "backoff_trace req k k = [ImageCall k req]"
  by (simp add: backoff_trace_def)

lemma retryLoop_run:
  "a \<le> MAX_RETRIES \<Longrightarrow>
   \<exists>k. a \<le> k \<and> k \<le> MAX_RETRIES
     \<and> fst (retryLoop e req a) = backoff_trace req a k
     \<and> (\<forall>n. a \<le> n \<and> n < k \<longrightarrow>
           (\<exists>err. imageAttempt e n req = Inl err \<and> retriable (classify (err_msg err))))
     \<and> (case imageAttempt e k req of
           Inr d \<Rightarrow> snd (retryLoop e req a) = (Some d, None)
         | Inl err \<Rightarrow>
             (k = MAX_RETRIES \<or> \<not> retriable (classify (err_msg err)))
             \<and> snd (retryLoop e req a) = (None, Some (sanitize (err_msg err))))"
proof (induction e req a rule: retryLoop.induct)
  case (1 e req attempt)
  show ?case
  proof (cases "imageAttempt e attempt req")
    case (Inr d)
    then have "retryLoop e req attempt = ([ImageCall attempt req], Some d, None)"
      using "1.prems" by (subst retryLoop.simps) simp
    with Inr "1.prems" show ?thesis
      by (intro exI [of _ attempt]) (auto simp: backoff_trace_same)
  next
    case (Inl err)
    have rt: "retriable (classify (err_msg err)) = (isQuota (err_msg err) \<or> isOverloaded (err_msg err))"
      by (simp add: retriable_def classify_def)
    show ?thesis
    proof (cases "retriable (classify (err_msg err)) \<and> attempt < MAX_RETRIES")
      case True
      then have cond: "(isQuota (err_msg err) \<or> isOverloaded (err_msg err)) \<and> attempt < MAX_RETRIES"
        using rt by simp
      have unfold: "retryLoop e req attempt =
          (case retryLoop e req (attempt + 1) of
             (tr, res) \<Rightarrow> (ImageCall attempt req # Wait (2000 * attempt) # tr, res))"
        using "1.prems" Inl cond by (subst retryLoop.simps) simp
      from True have "attempt + 1 \<le> MAX_RETRIES" by simp
      from "1.IH" [OF "1.prems" Inl cond this]
      obtain k where k: "attempt + 1 \<le> k" "k \<le> MAX_RETRIES"
        and tr: "fst (retryLoop e req (attempt + 1)) = backoff_trace req (attempt + 1) k"
        and before: "\<forall>n. attempt + 1 \<le> n \<and> n < k \<longrightarrow>
           (\<exists>err. imageAttempt e n req = Inl err \<and> retriable (classify (err_msg err)))"
        and final: "(case imageAttempt e k req of
           Inr d \<Rightarrow> snd (retryLoop e req (attempt + 1)) = (Some d, None)
         | Inl err \<Rightarrow>
             (k = MAX_RETRIES \<or> \<not> retriable (classify (err_msg err)))
             \<and> snd (retryLoop e req (attempt + 1)) = (None, Some (sanitize (err_msg err))))"
        by blast
      have fst_eq: "fst (retryLoop e req attempt) = backoff_trace req attempt k"
        using unfold tr k(1) backoff_trace_step [of attempt k req]
        by (simp add: split_beta)
      have snd_eq: "snd (retryLoop e req attempt) = snd (retryLoop e req (attempt + 1))"
        using unfold by (simp add: split_beta)
      have before': "\<forall>n. attempt \<le> n \<and> n < k \<longrightarrow>
           (\<exists>err. imageAttempt e n req = Inl err \<and> retriable (classify (err_msg err)))"
      proof (intro allI impI)
        fix n assume n: "attempt \<le> n \<and> n < k"
        show "\<exists>err. imageAttempt e n req = Inl err \<and> retriable (classify (err_msg err))"
        proof (cases "n = attempt")
          case True
          with Inl \<open>retriable (classify (err_msg err)) \<and> attempt < MAX_RETRIES\<close>
          show ?thesis by blast
        next
          case False
          with n have "attempt + 1 \<le> n \<and> n < k" by simp
          with before show ?thesis by blast
        qed
      qed
      from k have "attempt \<le> k" by simp
      moreover from final snd_eq have "(case imageAttempt e k req of
           Inr d \<Rightarrow> snd (retryLoop e req attempt) = (Some d, None)
         | Inl err \<Rightarrow>
             (k = MAX_RETRIES \<or> \<not> retriable (classify (err_msg err)))
             \<and> snd (retryLoop e req attempt) = (None, Some (sanitize (err_msg err))))"
        by (simp split: sum.splits)
      ultimately show ?thesis using k(2) fst_eq before'
        by (intro exI [of _ k]) simp
    next
      case False
      then have ncond: "\<not> ((isQuota (err_msg err) \<or> isOverloaded (err_msg err)) \<and> attempt < MAX_RETRIES)"
        using rt by simp
      have "retryLoop e req attempt = ([ImageCall attempt req], None, Some (sanitize (err_msg err)))"
        using "1.prems" Inl ncond by (subst retryLoop.simps) auto
      moreover from False "1.prems" have "attempt = MAX_RETRIES \<or> \<not> retriable (classify (err_msg err))"
        by auto
      ultimately show ?thesis using Inl "1.prems"
        by (intro exI [of _ attempt]) (auto simp: backoff_trace_same)
    qed
  qed
qed

lemma sanitize_safety: "classify m = Safety_blocked \<Longrightarrow> sanitize m = safetyMessage"
  by (auto simp: classify_def sanitize_def split: if_splits)

lemma sanitize_quota: "classify m = Quota_exceeded \<Longrightarrow> sanitize m = quotaMessage"
  by (auto simp: classify_def sanitize_def split: if_splits)


text \<open>
  C3. The loop started at attempt 1 makes attempts \<open>1, ..., k\<close> for some
  \<open>k \<le> MAX_RETRIES = 3\<close>, so at most 3 attempts occur. Each attempt \<open>n\<close> below
  \<open>k\<close> failed with a message classified quota-exceeded or overloaded and is followed
  by a delay of \<open>2000 * n\<close> ms (2 s, then 4 s) and then by attempt \<open>n + 1\<close>;
  attempt \<open>k\<close> either succeeded, or \<open>k = MAX_RETRIES\<close>, or its failure is classified
  safety-blocked or fatal. Attempt \<open>n + 1\<close> is made only after such a retriable failure
  of attempt \<open>n < MAX_RETRIES\<close>, and is made after every such failure. A first failure
  classified safety-blocked gives exactly one attempt, no image and the policy-refusal
  message.
\<close>

theorem retryLoop_backoff:
  "(\<exists>k. 1 \<le> k \<and> k \<le> MAX_RETRIES
      \<and> fst (retryLoop e req 1) = backoff_trace req 1 k
      \<and> attempts (fst (retryLoop e req 1)) = [1..<Suc k]
      \<and> waits (fst (retryLoop e req 1)) = map (\<lambda>n. 2000 * n) [1..<k]
      \<and> (\<forall>n. 1 \<le> n \<and> n < k \<longrightarrow>
            (\<exists>err. imageAttempt e n req = Inl err \<and> retriable (classify (err_msg err))))
      \<and> (case imageAttempt e k req of
            Inr d \<Rightarrow> snd (retryLoop e req 1) = (Some d, None)
          | Inl err \<Rightarrow>
              (k = MAX_RETRIES \<or> \<not> retriable (classify (err_msg err)))
              \<and> snd (retryLoop e req 1) = (None, Some (sanitize (err_msg err)))))
   \<and> (\<forall>n. 0 < n \<and> Suc n \<in> set (attempts (fst (retryLoop e req 1))) \<longrightarrow>
         n < MAX_RETRIES
         \<and> (\<exists>err. imageAttempt e n req = Inl err \<and> retriable (classify (err_msg err))))
   \<and> (\<forall>n err. n \<in> set (attempts (fst (retryLoop e req 1))) \<and> imageAttempt e n req = Inl err
         \<and> retriable (classify (err_msg err)) \<and> n < MAX_RETRIES \<longrightarrow>
         Suc n \<in> set (attempts (fst (retryLoop e req 1))))
   \<and> MAX_RETRIES = 3
   \<and> length (attempts (fst (retryLoop e req 1))) \<le> 3
   \<and> backoff_trace req 1 3 =
        [ImageCall 1 req, Wait 2000, ImageCall 2 req, Wait 4000, ImageCall 3 req]
   \<and> (\<forall>err. imageAttempt e 1 req = Inl err \<and> classify (err_msg err) = Safety_blocked \<longrightarrow>
         retryLoop e req 1 = ([ImageCall 1 req], None, Some safetyMessage))"
proof -
  let ?tr = "fst (retryLoop e req 1)"
  have "1 \<le> MAX_RETRIES" by (simp add: MAX_RETRIES_def)
  from retryLoop_run [OF this, of e req]
  obtain k where k: "1 \<le> k" "k \<le> MAX_RETRIES"
    and tr: "?tr = backoff_trace req 1 k"
    and before: "\<forall>n. 1 \<le> n \<and> n < k \<longrightarrow>
           (\<exists>err. imageAttempt e n req = Inl err \<and> retriable (classify (err_msg err)))"
    and final: "(case imageAttempt e k req of
           Inr d \<Rightarrow> snd (retryLoop e req 1) = (Some d, None)
         | Inl err \<Rightarrow>
             (k = MAX_RETRIES \<or> \<not> retriable (classify (err_msg err)))
             \<and> snd (retryLoop e req 1) = (None, Some (sanitize (err_msg err))))"
    by blast
  have att: "attempts ?tr = [1..<Suc k]"
    using tr k(1) attempts_backoff_trace [of 1 k req] by simp
  have wts: "waits ?tr = map (\<lambda>n. 2000 * n) [1..<k]"
    using tr waits_backoff_trace [of req 1 k] by simp
  have A: "\<forall>n. 0 < n \<and> Suc n \<in> set (attempts ?tr) \<longrightarrow>
         n < MAX_RETRIES
         \<and> (\<exists>err. imageAttempt e n req = Inl err \<and> retriable (classify (err_msg err)))"
  proof (intro allI impI)
    fix n assume "0 < n \<and> Suc n \<in> set (attempts ?tr)"
    then have "1 \<le> n \<and> n < k" using att by auto
    with before k(2) show "n < MAX_RETRIES
         \<and> (\<exists>err. imageAttempt e n req = Inl err \<and> retriable (classify (err_msg err)))"
      by auto
  qed
  have B: "\<forall>n err. n \<in> set (attempts ?tr) \<and> imageAttempt e n req = Inl err
         \<and> retriable (classify (err_msg err)) \<and> n < MAX_RETRIES \<longrightarrow>
         Suc n \<in> set (attempts ?tr)"
  proof (intro allI impI)
    fix n err
    assume h: "n \<in> set (attempts ?tr) \<and> imageAttempt e n req = Inl err
         \<and> retriable (classify (err_msg err)) \<and> n < MAX_RETRIES"
    then have nk: "1 \<le> n" "n \<le> k" using att by auto
    have "n \<noteq> k"
    proof
      assume "n = k"
      with final h show False by simp
    qed
    with nk show "Suc n \<in> set (attempts ?tr)" using att by auto
  qed
  have len: "length (attempts ?tr) \<le> 3"
    using att k(2) by (simp add: MAX_RETRIES_def)
  have bt: "backoff_trace req 1 3 =
        [ImageCall 1 req, Wait 2000, ImageCall 2 req, Wait 4000, ImageCall 3 req]"
    by (simp add: backoff_trace_def upt_rec)
  have S: "\<forall>err. imageAttempt e 1 req = Inl err \<and> classify (err_msg err) = Safety_blocked \<longrightarrow>
         retryLoop e req 1 = ([ImageCall 1 req], None, Some safetyMessage)"
  proof (intro allI impI)
    fix err
    assume h: "imageAttempt e 1 req = Inl err \<and> classify (err_msg err) = Safety_blocked"
    then have nr: "\<not> (isQuota (err_msg err) \<or> isOverloaded (err_msg err))"
      by (auto simp: classify_def split: if_splits)
    from h have "sanitize (err_msg err) = safetyMessage" by (simp add: sanitize_safety)
    with h nr show "retryLoop e req 1 = ([ImageCall 1 req], None, Some safetyMessage)"
      by (subst retryLoop.simps) (simp add: MAX_RETRIES_def)
  qed
  have E: "\<exists>k. 1 \<le> k \<and> k \<le> MAX_RETRIES
      \<and> ?tr = backoff_trace req 1 k
      \<and> attempts ?tr = [1..<Suc k]
      \<and> waits ?tr = map (\<lambda>n. 2000 * n) [1..<k]
      \<and> (\<forall>n. 1 \<le> n \<and> n < k \<longrightarrow>
            (\<exists>err. imageAttempt e n req = Inl err \<and> retriable (classify (err_msg err))))
      \<and> (case imageAttempt e k req of
            Inr d \<Rightarrow> snd (retryLoop e req 1) = (Some d, None)
          | Inl err \<Rightarrow>
              (k = MAX_RETRIES \<or> \<not> retriable (classify (err_msg err)))
              \<and> snd (retryLoop e req 1) = (None, Some (sanitize (err_msg err))))"
    using k tr att wts before final by blast
  have M: "MAX_RETRIES = 3" by (simp add: MAX_RETRIES_def)
  from E A B M len bt S show ?thesis by blast
qed

lemma imageAttempt_env_retry_1: "imageAttempt env_retry 1 sample_request = Inl (new_Error ''503'')"
  by (simp add: imageAttempt_def env_retry_def)

lemma classify_503: "classify (err_msg (new_Error ''503'')) = Overloaded"
  by (simp add: classify_def err_msg_def new_Error_def isQuota_def isOverloaded_def)

lemma imageAttempt_env_safety_1: "imageAttempt env_safety 1 sample_request = Inl (new_Error ''Safety'')"
  by (simp add: imageAttempt_def env_safety_def)

lemma classify_Safety: "classify (err_msg (new_Error ''Safety'')) = Safety_blocked"
  by (simp add: classify_def err_msg_def new_Error_def isQuota_def isOverloaded_def)


lemma imageAttempt_env_retry_2:
  "imageAttempt env_retry 2 sample_request = Inl (new_Error ''429'')"
  by (simp add: imageAttempt_def env_retry_def)

lemma classify_429: "classify (err_msg (new_Error ''429'')) = Quota_exceeded"
  by (simp add: classify_def err_msg_def new_Error_def isQuota_def)

lemma imageAttempt_env_retry_3: "imageAttempt env_retry 3 sample_request = Inr ''iVBOR''"
  by (simp add: imageAttempt_def env_retry_def sample_image_def is_inlineData_def)

theorem retryLoop_backoff_witness:
  "imageAttempt env_safety 1 sample_request = Inl (new_Error ''Safety'')
   \<and> classify (err_msg (new_Error ''Safety'')) = Safety_blocked
   \<and> retryLoop env_safety sample_request 1 = ([ImageCall 1 sample_request], None, Some safetyMessage)
   \<and> 1 \<in> set (attempts (fst (retryLoop env_retry sample_request 1)))
   \<and> imageAttempt env_retry 1 sample_request = Inl (new_Error ''503'')
   \<and> retriable (classify (err_msg (new_Error ''503'')))
   \<and> 1 < MAX_RETRIES
   \<and> Suc 1 \<in> set (attempts (fst (retryLoop env_retry sample_request 1)))
   \<and> waits (fst (retryLoop env_retry sample_request 1)) = [2000, 4000]
   \<and> snd (retryLoop env_retry sample_request 1) = (Some ''iVBOR'', None)"
proof -
  note safety = retryLoop_backoff [of env_safety sample_request]
  note retry = retryLoop_backoff [of env_retry sample_request]
  from safety imageAttempt_env_safety_1 classify_Safety
  have s: "retryLoop env_safety sample_request 1 = ([ImageCall 1 sample_request], None, Some safetyMessage)"
    by blast
  from retry obtain k where k: "1 \<le> k" "k \<le> MAX_RETRIES"
    and att: "attempts (fst (retryLoop env_retry sample_request 1)) = [1..<Suc k]"
    and w: "waits (fst (retryLoop env_retry sample_request 1)) = map (\<lambda>n. 2000 * n) [1..<k]"
    and fin: "(case imageAttempt env_retry k sample_request of
            Inr d \<Rightarrow> snd (retryLoop env_retry sample_request 1) = (Some d, None)
          | Inl err \<Rightarrow>
              (k = MAX_RETRIES \<or> \<not> retriable (classify (err_msg err)))
              \<and> snd (retryLoop env_retry sample_request 1) = (None, Some (sanitize (err_msg err))))"
    by blast
  from k(1) att have a1: "1 \<in> set (attempts (fst (retryLoop env_retry sample_request 1)))"
    by auto
  have r: "retriable (classify (err_msg (new_Error ''503'')))"
    by (simp add: classify_503 retriable_def)
  have m: "1 < MAX_RETRIES" by (simp add: MAX_RETRIES_def)
  from retry a1 imageAttempt_env_retry_1 r m
  have a2: "Suc 1 \<in> set (attempts (fst (retryLoop env_retry sample_request 1)))"
    by blast
  from k have "1 \<le> k" "k \<le> 3" by (simp_all add: MAX_RETRIES_def)
  then consider (one) "k = 1" | (two) "k = 2" | (three) "k = 3" by linarith
  then have k3: "k = 3"
  proof cases
    case one
    from fin [unfolded one imageAttempt_env_retry_1] show ?thesis
      by (simp add: classify_503 retriable_def MAX_RETRIES_def)
  next
    case two
    from fin [unfolded two imageAttempt_env_retry_2] show ?thesis
      by (simp add: classify_429 retriable_def MAX_RETRIES_def)
  next
    case three
    then show ?thesis .
  qed
  from w k3 have w2: "waits (fst (retryLoop env_retry sample_request 1)) = [2000, 4000]"
    by (simp add: upt_rec)
  from fin [unfolded k3 imageAttempt_env_retry_3]
  have ok: "snd (retryLoop env_retry sample_request 1) = (Some ''iVBOR'', None)"
    by simp
  from s a1 imageAttempt_env_retry_1 r m a2 w2 ok imageAttempt_env_safety_1 classify_Safety
  show ?thesis by blast
qed

section \<open>Properties of the generation pipeline\<close>

lemma attempts_textAnalysis:
  "attempts (fst (textAnalysis e sketch context references params userPrompt)) = []"
  by (simp add: textAnalysis_def Let_def split: sum.splits)

lemma no_ImageCall_textAnalysis:
  "ImageCall n r \<notin> set (fst (textAnalysis e sketch context references params userPrompt))"
  by (auto simp: textAnalysis_def Let_def split: sum.splits)

lemma includes_str_append: "includes_str (pre @ sub @ post) sub"
proof (induction pre)
  case Nil
  have t: "take (length sub) (sub @ post) = sub" by simp
  show ?case
  proof (cases "sub @ post")
    case Nil
    then show ?thesis by simp
  next
    case (Cons a list)
    with t show ?thesis by simp
  qed
next
  case (Cons c pre)
  then show ?case by simp
qed

lemma sanitize_classify:
  "sanitize m =
    (case classify m of
       Quota_exceeded \<Rightarrow> quotaMessage
     | Overloaded \<Rightarrow>
         if includes_str m ''Safety'' \<or> includes_str m ''block'' then safetyMessage
         else ''Generation Failed: '' @ take 100 m @ ''...''
     | Safety_blocked \<Rightarrow> safetyMessage
     | Fatal_other \<Rightarrow> ''Generation Failed: '' @ take 100 m @ ''...'')"
  by (simp add: sanitize_def classify_def)

lemma textAnalysis_env_overloaded:
  "textAnalysis env_overloaded sample_sketch None [] sample_params ''modern''
    = (fst (textAnalysis env_overloaded sample_sketch None [] sample_params ''modern''),
       Inr ''A house'')"
  by (simp add: textAnalysis_def fileToPart_def env_overloaded_def sample_text_def Let_def)

lemma imageAttempt_env_overloaded:
  "1 \<le> k \<Longrightarrow> imageAttempt env_overloaded k r = Inl (new_Error ''503'')"
  by (simp add: imageAttempt_def env_overloaded_def)

lemma sanitize_503: "sanitize (err_msg (new_Error ''503'')) = ''Generation Failed: 503...''"
  by (simp add: sanitize_def err_msg_def new_Error_def isQuota_def)

lemma textAnalysis_call_fails:
  assumes "filesToParts e 1
            (map img_file (sketch # (case context of None \<Rightarrow> [] | Some c \<Rightarrow> [c]) @ references))
           = Inr ps"
    and "generateContent e 0 (textRequest ps params userPrompt) = Inl err"
  shows "textAnalysis e sketch context references params userPrompt
          = ([TextCall (textRequest ps params userPrompt)], Inl err)"
  using assms by (simp add: textAnalysis_def)

lemma textAnalysis_env_text_fails:
  "snd (textAnalysis env_text_fails sample_sketch None [] sample_params ''modern'')
    = Inl (new_Error ''500'')"
  by (simp add: textAnalysis_def fileToPart_def env_text_fails_def Let_def)

lemma ImageCall_backoff_trace:
  "ImageCall n r \<in> set (backoff_trace req a k) \<Longrightarrow> r = req"
  by (auto simp: backoff_trace_def)

lemma generate_returns:
  assumes key: "apiKey e \<noteq> []"
    and tx: "textAnalysis e sketch context references params userPrompt = (tr1, Inr txt)"
  shows "\<exists>tr r.
      generateArchitecturalPrompt e sketch context references params userPrompt masterStylePrompt
        = (tr, Inr r)
      \<and> prompt r = txt
      \<and> (case fileToPart e 2 (img_file sketch) of
            Inl setupError \<Rightarrow>
              attempts tr = [] \<and> imageData r = None
              \<and> error r = Some (''Failed to prepare image data: '' @ js_str (message setupError))
          | Inr p \<Rightarrow>
              (\<exists>k. 1 \<le> k \<and> k \<le> MAX_RETRIES \<and> attempts tr = [1..<Suc k]
                 \<and> (case imageAttempt e k
                            (imageRequest [p, TextPart (imageGenPrompt masterStylePrompt txt)]
                               (getBestAspectRatio (width sketch) (height sketch))) of
                       Inr d \<Rightarrow> imageData r = Some d \<and> error r = None
                     | Inl err \<Rightarrow>
                         (k = MAX_RETRIES \<or> \<not> retriable (classify (err_msg err)))
                         \<and> imageData r = None
                         \<and> error r = Some (sanitize (err_msg err)))))"
proof (cases "fileToPart e 2 (img_file sketch)")
  case (Inl setupError)
  have "attempts tr1 = []"
    using attempts_textAnalysis [of e sketch "context" references params userPrompt] tx by simp
  with Inl key tx show ?thesis
    by (simp add: generateArchitecturalPrompt_def imageGeneration_def attempts_append)
next
  case (Inr p)
  let ?req = "imageRequest [p, TextPart (imageGenPrompt masterStylePrompt txt)]
                               (getBestAspectRatio (width sketch) (height sketch))"
  have a1: "attempts tr1 = []"
    using attempts_textAnalysis [of e sketch "context" references params userPrompt] tx by simp
  have "1 \<le> MAX_RETRIES" by (simp add: MAX_RETRIES_def)
  from retryLoop_run [OF this, of e ?req]
  obtain k where k: "1 \<le> k" "k \<le> MAX_RETRIES"
    and tr: "fst (retryLoop e ?req 1) = backoff_trace ?req 1 k"
    and final: "(case imageAttempt e k ?req of
           Inr d \<Rightarrow> snd (retryLoop e ?req 1) = (Some d, None)
         | Inl err \<Rightarrow>
             (k = MAX_RETRIES \<or> \<not> retriable (classify (err_msg err)))
             \<and> snd (retryLoop e ?req 1) = (None, Some (sanitize (err_msg err))))"
    by blast
  have att: "attempts (fst (retryLoop e ?req 1)) = [1..<Suc k]"
    using tr k(1) attempts_backoff_trace [of 1 k ?req] by simp
  obtain tr2 img er where R: "retryLoop e ?req 1 = (tr2, img, er)"
    by (cases "retryLoop e ?req 1") auto
  have G: "generateArchitecturalPrompt e sketch context references params userPrompt masterStylePrompt
      = (StatusUpdate analyzing # tr1 @ StatusUpdate generating # tr2,
         Inr \<lparr>res_id = toString (clock e 0), prompt = txt, imageData = img, error = er,
              timestamp = clock e 1\<rparr>)"
    using key tx Inr R
    by (simp add: generateArchitecturalPrompt_def imageGeneration_def)
  have att': "attempts (StatusUpdate analyzing # tr1 @ StatusUpdate generating # tr2) = [1..<Suc k]"
    using a1 att R by (simp add: attempts_append)
  have fin': "(case imageAttempt e k ?req of
           Inr d \<Rightarrow> img = Some d \<and> er = None
         | Inl err \<Rightarrow>
             (k = MAX_RETRIES \<or> \<not> retriable (classify (err_msg err)))
             \<and> img = None \<and> er = Some (sanitize (err_msg err)))"
    using final R by (simp split: sum.splits)
  let ?tr = "StatusUpdate analyzing # tr1 @ StatusUpdate generating # tr2"
  let ?r = "\<lparr>res_id = toString (clock e 0), prompt = txt, imageData = img, error = er,
              timestamp = clock e 1\<rparr>"
  have inner: "\<exists>k. 1 \<le> k \<and> k \<le> MAX_RETRIES \<and> attempts ?tr = [1..<Suc k]
      \<and> (case imageAttempt e k ?req of
           Inr d \<Rightarrow> imageData ?r = Some d \<and> error ?r = None
         | Inl err \<Rightarrow>
             (k = MAX_RETRIES \<or> \<not> retriable (classify (err_msg err)))
             \<and> imageData ?r = None \<and> error ?r = Some (sanitize (err_msg err)))"
    using k att' fin' by (intro exI [of _ k]) (simp split: sum.splits)
  have "prompt ?r = txt" by simp
  with G inner Inr show ?thesis
    by (intro exI [of _ ?tr] exI [of _ ?r]) (simp only: sum.case simp_thms)
qed


text \<open>
  C2. When a key is configured and step 1 yields the refined text \<open>txt\<close>, the function
  returns (it does not throw) a \<open>PromptResult\<close> whose \<open>prompt\<close> is \<open>txt\<close>,
  whatever the image step does. If the sketch cannot be prepared for the image step, no
  image call is made and the result has no image and a preparation error. Otherwise the
  image calls are attempts \<open>1, ..., k\<close> with \<open>k \<le> MAX_RETRIES\<close>, and when the
  last attempt \<open>k\<close> fails (retries exhausted, or a failure that is not retriable) the
  result has no image and carries the sanitised message of that failure; when it succeeds
  the result has the image and no error. The sanitised message is fixed by the class of
  the failure message: the quota wording for quota-exceeded, the policy-refusal wording
  for safety-blocked, \<open>Generation Failed: ...\<close> with the first 100 characters of the
  message for fatal, and for overloaded the policy-refusal wording when the message also
  contains \<open>Safety\<close> or \<open>block\<close> and the \<open>Generation Failed\<close> wording
  otherwise.
\<close>

theorem generate_partial_success:
  assumes key: "apiKey e \<noteq> []"
    and tx: "textAnalysis e sketch context references params userPrompt = (tr1, Inr txt)"
  shows "(\<exists>tr r.
      generateArchitecturalPrompt e sketch context references params userPrompt masterStylePrompt
        = (tr, Inr r)
      \<and> prompt r = txt
      \<and> (case fileToPart e 2 (img_file sketch) of
            Inl setupError \<Rightarrow>
              attempts tr = [] \<and> imageData r = None
              \<and> error r = Some (''Failed to prepare image data: '' @ js_str (message setupError))
          | Inr p \<Rightarrow>
              (\<exists>k. 1 \<le> k \<and> k \<le> MAX_RETRIES \<and> attempts tr = [1..<Suc k]
                 \<and> (case imageAttempt e k
                            (imageRequest [p, TextPart (imageGenPrompt masterStylePrompt txt)]
                               (getBestAspectRatio (width sketch) (height sketch))) of
                       Inr d \<Rightarrow> imageData r = Some d \<and> error r = None
                     | Inl err \<Rightarrow>
                         (k = MAX_RETRIES \<or> \<not> retriable (classify (err_msg err)))
                         \<and> imageData r = None
                         \<and> error r = Some (sanitize (err_msg err))))))
    \<and> (\<forall>m. sanitize m =
          (case classify m of
             Quota_exceeded \<Rightarrow> quotaMessage
           | Overloaded \<Rightarrow>
               if includes_str m ''Safety'' \<or> includes_str m ''block'' then safetyMessage
               else ''Generation Failed: '' @ take 100 m @ ''...''
           | Safety_blocked \<Rightarrow> safetyMessage
           | Fatal_other \<Rightarrow> ''Generation Failed: '' @ take 100 m @ ''...''))"
  using generate_returns [OF key tx, of masterStylePrompt] sanitize_classify by blast

theorem generate_partial_success_witness:
  "apiKey env_overloaded \<noteq> []
   \<and> snd (textAnalysis env_overloaded sample_sketch None [] sample_params ''modern'')
       = Inr ''A house''
   \<and> (\<exists>tr r. generateArchitecturalPrompt env_overloaded sample_sketch None [] sample_params
                 ''modern'' None = (tr, Inr r)
         \<and> prompt r = ''A house'' \<and> imageData r = None
         \<and> error r = Some ''Generation Failed: 503...'')"
proof -
  have key: "apiKey env_overloaded \<noteq> []" by (simp add: env_overloaded_def)
  have p: "fileToPart env_overloaded 2 (img_file sample_sketch) = Inr (InlineData ''AAAA'' ''image/png'')"
    by (simp add: fileToPart_def env_overloaded_def sample_sketch_def)
  from generate_partial_success [OF key textAnalysis_env_overloaded, of None]
  obtain tr r k where g: "generateArchitecturalPrompt env_overloaded sample_sketch None []
        sample_params ''modern'' None = (tr, Inr r)"
    and pr: "prompt r = ''A house''"
    and k: "1 \<le> k"
    and c: "(case imageAttempt env_overloaded k
                (imageRequest [InlineData ''AAAA'' ''image/png'', TextPart (imageGenPrompt None ''A house'')]
                   (getBestAspectRatio (width sample_sketch) (height sample_sketch))) of
              Inr d \<Rightarrow> imageData r = Some d \<and> error r = None
            | Inl err \<Rightarrow>
                (k = MAX_RETRIES \<or> \<not> retriable (classify (err_msg err)))
                \<and> imageData r = None
                \<and> error r = Some (sanitize (err_msg err)))"
    unfolding p by (auto simp only: sum.case)
  from c k have "imageData r = None \<and> error r = Some ''Generation Failed: 503...''"
    by (simp add: imageAttempt_env_overloaded sanitize_503)
  with g pr key textAnalysis_env_overloaded show ?thesis
    by (metis snd_conv)
qed

text \<open>
  C4. When a key is configured and step 1 throws \<open>err\<close>, the function throws
  \<open>Analysis failed: ...\<close>; the events up to there contain no image call, and no
  \<open>PromptResult\<close> is returned.
\<close>

theorem generate_text_failure_aborts:
  assumes key: "apiKey e \<noteq> []"
    and tx: "snd (textAnalysis e sketch context references params userPrompt) = Inl err"
  shows "\<exists>tr. generateArchitecturalPrompt e sketch context references params userPrompt
                masterStylePrompt
          = (tr, Inl (new_Error (''Analysis failed: ''
                @ js_or (message err) ''Unknown error'')))
        \<and> attempts tr = []
        \<and> (\<forall>n r. ImageCall n r \<notin> set tr)"
proof -
  obtain tr1 where T: "textAnalysis e sketch context references params userPrompt = (tr1, Inl err)"
    using tx by (cases "textAnalysis e sketch context references params userPrompt") auto
  have "attempts tr1 = []"
    using attempts_textAnalysis [of e sketch "context" references params userPrompt] T by simp
  moreover have "\<forall>n r. ImageCall n r \<notin> set tr1"
    using no_ImageCall_textAnalysis [of _ _ e sketch "context" references params userPrompt] T
    by simp
  ultimately show ?thesis
    using key T by (simp add: generateArchitecturalPrompt_def)
qed

theorem generate_text_failure_aborts_witness:
  "apiKey env_text_fails \<noteq> []
   \<and> snd (textAnalysis env_text_fails sample_sketch None [] sample_params ''modern'')
       = Inl (new_Error ''500'')
   \<and> (\<exists>tr. generateArchitecturalPrompt env_text_fails sample_sketch None [] sample_params
               ''modern'' None = (tr, Inl (new_Error ''Analysis failed: 500''))
         \<and> attempts tr = [] \<and> (\<forall>n r. ImageCall n r \<notin> set tr))"
proof -
  have key: "apiKey env_text_fails \<noteq> []" by (simp add: env_text_fails_def)
  from generate_text_failure_aborts [OF key textAnalysis_env_text_fails, of None]
  have "\<exists>tr. generateArchitecturalPrompt env_text_fails sample_sketch None [] sample_params
               ''modern'' None = (tr, Inl (new_Error ''Analysis failed: 500''))
         \<and> attempts tr = [] \<and> (\<forall>n r. ImageCall n r \<notin> set tr)"
    by (simp add: new_Error_def)
  with key textAnalysis_env_text_fails show ?thesis by blast
qed

text \<open>
  C10. When a key is configured, the files of step 1 are read and the text call returns
  with \<open>response.text\<close> empty or undefined, the function returns a
  \<open>PromptResult\<close> whose \<open>prompt\<close> is the placeholder
  \<open>Prompt generation failed.\<close>; every image call made carries the instruction built
  from the placeholder, attempt 1 is made with it whenever the sketch can be prepared for
  the image step, and the instruction contains \<open>DESCRIPTION: \<close> followed by the first
  800 characters of the placeholder, which is the whole placeholder.
\<close>

theorem generate_empty_text_placeholder:
  assumes key: "apiKey e \<noteq> []"
    and files: "filesToParts e 1
        (map img_file (sketch # (case context of None \<Rightarrow> [] | Some c \<Rightarrow> [c]) @ references))
        = Inr ps"
    and call: "generateContent e 0 (textRequest ps params userPrompt) = Inr resp"
    and empty: "resp_text resp = None \<or> resp_text resp = Some []"
  shows "\<exists>tr r.
      generateArchitecturalPrompt e sketch context references params userPrompt masterStylePrompt
        = (tr, Inr r)
      \<and> prompt r = ''Prompt generation failed.''
      \<and> (\<forall>n req. ImageCall n req \<in> set tr \<longrightarrow>
            (\<exists>p. parts req =
               [p, TextPart (imageGenPrompt masterStylePrompt ''Prompt generation failed.'')]))
      \<and> (\<forall>p. fileToPart e 2 (img_file sketch) = Inr p \<longrightarrow>
            ImageCall 1
              (imageRequest
                 [p, TextPart (imageGenPrompt masterStylePrompt ''Prompt generation failed.'')]
                 (getBestAspectRatio (width sketch) (height sketch))) \<in> set tr)
      \<and> take 800 ''Prompt generation failed.'' = ''Prompt generation failed.''
      \<and> includes_str (imageGenPrompt masterStylePrompt ''Prompt generation failed.'')
            (''DESCRIPTION: '' @ take 800 ''Prompt generation failed.'')"
proof -
  let ?ph = "''Prompt generation failed.''"
  have T: "textAnalysis e sketch context references params userPrompt
        = ([TextCall (textRequest ps params userPrompt)], Inr ?ph)"
    using files call empty by (auto simp: textAnalysis_def)
  have inc: "includes_str (imageGenPrompt masterStylePrompt ?ph) (''DESCRIPTION: '' @ take 800 ?ph)"
  proof -
    let ?style = "(case masterStylePrompt of
         None \<Rightarrow> ''Style: Photorealistic, 8k, Unreal Engine 5.''
       | Some st \<Rightarrow> if st \<noteq> [] then ''STYLE: '' @ st
                    else ''Style: Photorealistic, 8k, Unreal Engine 5.'')"
    let ?pre = "nl @ ''        Create a photorealistic architectural rendering.'' @ nl
        @ ''        '' @ ?style @ nl @ ''        ''"
    let ?post = "nl @ ''        CONSTRAINTS: Use sketch geometry strictly. High fidelity.'' @ nl
        @ ''      ''"
    have "imageGenPrompt masterStylePrompt ?ph
        = ?pre @ (''DESCRIPTION: '' @ take 800 ?ph) @ ?post"
      unfolding imageGenPrompt_def by simp
    then show ?thesis
      by (simp only: includes_str_append)
  qed
  show ?thesis
  proof (cases "fileToPart e 2 (img_file sketch)")
    case (Inl setupError)
    with key T inc show ?thesis
      by (simp add: generateArchitecturalPrompt_def imageGeneration_def)
  next
    case (Inr p)
    let ?req = "imageRequest [p, TextPart (imageGenPrompt masterStylePrompt ?ph)]
                 (getBestAspectRatio (width sketch) (height sketch))"
    obtain tr2 img er where R: "retryLoop e ?req 1 = (tr2, img, er)"
      by (cases "retryLoop e ?req 1") auto
    have "1 \<le> MAX_RETRIES" by (simp add: MAX_RETRIES_def)
    from retryLoop_run [OF this, of e ?req]
    obtain k where k: "1 \<le> k" and trk: "fst (retryLoop e ?req 1) = backoff_trace ?req 1 k"
      by blast
    from trk R have tr2: "tr2 = backoff_trace ?req 1 k" by simp
    have first: "ImageCall 1 ?req \<in> set tr2"
    proof (cases "k = 1")
      case True
      with tr2 show ?thesis by (simp add: backoff_trace_same)
    next
      case False
      with k have "1 < k" by simp
      with tr2 show ?thesis using backoff_trace_step [of 1 k ?req] by simp
    qed
    have all: "\<forall>n req. ImageCall n req \<in> set tr2 \<longrightarrow> req = ?req"
      using tr2 ImageCall_backoff_trace by blast
    have G: "generateArchitecturalPrompt e sketch context references params userPrompt
          masterStylePrompt
        = (StatusUpdate analyzing # [TextCall (textRequest ps params userPrompt)]
             @ StatusUpdate generating # tr2,
           Inr \<lparr>res_id = toString (clock e 0), prompt = ?ph, imageData = img, error = er,
                timestamp = clock e 1\<rparr>)"
      using key T Inr R
      by (simp add: generateArchitecturalPrompt_def imageGeneration_def)
    have parts_req: "parts ?req = [p, TextPart (imageGenPrompt masterStylePrompt ?ph)]"
      by (simp add: imageRequest_def)
    let ?tr = "StatusUpdate analyzing # [TextCall (textRequest ps params userPrompt)]
             @ StatusUpdate generating # tr2"
    let ?r = "\<lparr>res_id = toString (clock e 0), prompt = ?ph, imageData = img, error = er,
                timestamp = clock e 1\<rparr>"
    show ?thesis
    proof (intro exI [of _ ?tr] exI [of _ ?r] conjI)
      show "generateArchitecturalPrompt e sketch context references params userPrompt
          masterStylePrompt = (?tr, Inr ?r)"
        by (rule G)
      show "prompt ?r = ?ph" by simp
      show "\<forall>n req. ImageCall n req \<in> set ?tr \<longrightarrow>
            (\<exists>p. parts req = [p, TextPart (imageGenPrompt masterStylePrompt ?ph)])"
        using all parts_req by auto
      show "\<forall>p. fileToPart e 2 (img_file sketch) = Inr p \<longrightarrow>
            ImageCall 1
              (imageRequest [p, TextPart (imageGenPrompt masterStylePrompt ?ph)]
                 (getBestAspectRatio (width sketch) (height sketch))) \<in> set ?tr"
        using Inr first by simp
      show "take 800 ?ph = ?ph" by simp
      show "includes_str (imageGenPrompt masterStylePrompt ?ph) (''DESCRIPTION: '' @ take 800 ?ph)"
        by (rule inc)
    qed
  qed
qed



theorem generate_empty_text_placeholder_witness:
  "apiKey env_empty_text \<noteq> []
   \<and> filesToParts env_empty_text 1 (map img_file (sample_sketch # [] @ []))
        = Inr [InlineData ''AAAA'' ''image/png'']
   \<and> generateContent env_empty_text 0
         (textRequest [InlineData ''AAAA'' ''image/png''] sample_params ''modern'')
        = Inr \<lparr>resp_text = Some [], candidate_parts = []\<rparr>
   \<and> (\<exists>tr r. generateArchitecturalPrompt env_empty_text sample_sketch None [] sample_params
                 ''modern'' None = (tr, Inr r)
         \<and> prompt r = ''Prompt generation failed.''
         \<and> ImageCall 1
              (imageRequest
                 [InlineData ''AAAA'' ''image/png'',
                  TextPart (imageGenPrompt None ''Prompt generation failed.'')]
                 ''16:9'') \<in> set tr)"
proof -
  have key: "apiKey env_empty_text \<noteq> []" by (simp add: env_empty_text_def)
  have files: "filesToParts env_empty_text 1
        (map img_file (sample_sketch # (case None of None \<Rightarrow> [] | Some c \<Rightarrow> [c]) @ []))
        = Inr [InlineData ''AAAA'' ''image/png'']"
    by (simp add: fileToPart_def env_empty_text_def sample_sketch_def)
  have call: "generateContent env_empty_text 0
         (textRequest [InlineData ''AAAA'' ''image/png''] sample_params ''modern'')
        = Inr \<lparr>resp_text = Some [], candidate_parts = []\<rparr>"
    by (simp add: env_empty_text_def)
  have empty: "resp_text \<lparr>resp_text = Some [], candidate_parts = []\<rparr> = None
      \<or> resp_text \<lparr>resp_text = Some [], candidate_parts = []\<rparr> = Some []"
    by simp
  have p: "fileToPart env_empty_text 2 (img_file sample_sketch)
      = Inr (InlineData ''AAAA'' ''image/png'')"
    by (simp add: fileToPart_def env_empty_text_def sample_sketch_def)
  have ratio: "getBestAspectRatio (width sample_sketch) (height sample_sketch) = ''16:9''"
    using getBestAspectRatio_landscape by (simp add: sample_sketch_def)
  from generate_empty_text_placeholder [OF key files call empty, of None]
  obtain tr r where g: "generateArchitecturalPrompt env_empty_text sample_sketch None []
        sample_params ''modern'' None = (tr, Inr r)"
    and pr: "prompt r = ''Prompt generation failed.''"
    and sent: "\<forall>p. fileToPart env_empty_text 2 (img_file sample_sketch) = Inr p \<longrightarrow>
            ImageCall 1
              (imageRequest [p, TextPart (imageGenPrompt None ''Prompt generation failed.'')]
                 (getBestAspectRatio (width sample_sketch) (height sample_sketch))) \<in> set tr"
    by blast
  from sent p ratio have "ImageCall 1
              (imageRequest
                 [InlineData ''AAAA'' ''image/png'',
                  TextPart (imageGenPrompt None ''Prompt generation failed.'')]
                 ''16:9'') \<in> set tr"
    by simp
  with key files call g pr show ?thesis by auto
qed

section \<open>Properties of the result history\<close>

lemma addToHistory_Cons: "addToHistory r prev = r # take 2 prev"
  by (simp add: addToHistory_def numeral_3_eq_3 numeral_2_eq_2)

lemma length_addToHistory: "length (addToHistory r prev) \<le> 3"
  by (simp add: addToHistory_def)

lemma history_handleGenerate:
  "app_history (handleGenerate e m s) =
    (if app_sketch s = [] then app_history s
     else case snd (generateArchitecturalPrompt e (hd (app_sketch s))
                       (case app_context s of [] \<Rightarrow> None | c # cs \<Rightarrow> Some c)
                       (app_references s) (app_params s) (app_userPrompt s) m) of
            Inr generatedResult \<Rightarrow> addToHistory generatedResult (app_history s)
          | Inl err \<Rightarrow> app_history s)"
  by (simp add: handleGenerate_def Let_def split: sum.splits)

lemma history_handleMasterStyleClick:
  "has_imageData (if source = original then app_result s else app_styledResult s) \<Longrightarrow>
   app_history (handleMasterStyleClick e source stylePrompt s) =
    (let sourceResult = the (if source = original then app_result s else app_styledResult s) in
     case applyMasterStyle e (the (imageData sourceResult)) (prompt sourceResult) stylePrompt of
       Inr styledImageData \<Rightarrow>
         addToHistory
           \<lparr>res_id = toString (clock e 0),
            prompt = ''[MASTER FILTER APPLIED] '' @ prompt sourceResult,
            imageData = Some styledImageData, error = None, timestamp = clock e 1\<rparr>
           (app_history s)
     | Inl err \<Rightarrow> app_history s)"
  by (simp add: handleMasterStyleClick_def Let_def split: sum.splits)

lemma history_handleMasterStyleClick_no_image:
  "\<not> has_imageData (if source = original then app_result s else app_styledResult s) \<Longrightarrow>
   handleMasterStyleClick e source stylePrompt s = handleGenerate e (Some stylePrompt) s"
  by (simp add: handleMasterStyleClick_def Let_def)

lemma history_handleApplyEdit:
  "app_history (handleApplyEdit e maskData editPrompt s) =
    (let targetResult =
           (if app_editingTarget s = Some original then app_result s else app_styledResult s) in
     if \<not> has_imageData targetResult then app_history s
     else case editArchitecturalImage e (the (imageData (the targetResult))) maskData editPrompt of
            Inr newImageData \<Rightarrow>
              addToHistory
                ((the targetResult)\<lparr>imageData := Some newImageData,
                                    res_id := toString (clock e 0),
                                    timestamp := clock e 1\<rparr>)
                (app_history s)
          | Inl err \<Rightarrow> app_history s)"
  by (simp add: handleApplyEdit_def Let_def split: sum.splits)

lemma history_step:
  "app_history (step a s) = app_history s
   \<or> (\<exists>r. app_history (step a s) = addToHistory r (app_history s))"
proof (cases a)
  case (Generate e m)
  then show ?thesis
    by (auto simp: history_handleGenerate split: sum.splits)
next
  case (MasterStyleClick e source stylePrompt)
  show ?thesis
  proof (cases "has_imageData (if source = original then app_result s else app_styledResult s)")
    case True
    with MasterStyleClick show ?thesis
      by (auto simp: history_handleMasterStyleClick Let_def split: sum.splits)
  next
    case False
    with MasterStyleClick show ?thesis
      by (auto simp: history_handleMasterStyleClick_no_image history_handleGenerate
          split: sum.splits)
  qed
next
  case (ApplyEdit e maskData editPrompt)
  then show ?thesis
    by (auto simp: history_handleApplyEdit Let_def split: sum.splits)
qed

lemma length_history_step:
  "length (app_history s) \<le> 3 \<Longrightarrow> length (app_history (step a s)) \<le> 3"
  using history_step [of a s] length_addToHistory by auto

lemma length_history_run:
  "length (app_history s) \<le> 3 \<Longrightarrow> length (app_history (run acts s)) \<le> 3"
  unfolding run_def
  by (induction acts arbitrary: s) (simp_all add: length_history_step)

lemma generate_env_retry_returns:
  "\<exists>r. snd (generateArchitecturalPrompt env_retry sample_sketch None [] sample_params [] None)
        = Inr r"
proof -
  have key: "apiKey env_retry \<noteq> []" by (simp add: env_retry_def)
  have tx: "textAnalysis env_retry sample_sketch None [] sample_params []
    = (fst (textAnalysis env_retry sample_sketch None [] sample_params []), Inr ''A house'')"
    by (simp add: textAnalysis_def fileToPart_def env_retry_def sample_text_def Let_def)
  from generate_returns [OF key tx, of None] show ?thesis by auto
qed

lemma applyMasterStyle_sample:
  "applyMasterStyle env_empty_text ''iVBOR'' ''A house'' ''noir'' = Inr ''iVBOR''"
  by (simp add: applyMasterStyle_def env_empty_text_def sample_image_def is_inlineData_def)

lemma editArchitecturalImage_sample:
  "editArchitecturalImage env_empty_text ''iVBOR'' ''mask'' ''add a tree'' = Inr ''iVBOR''"
  by (simp add: editArchitecturalImage_def env_empty_text_def sample_image_def is_inlineData_def)

lemma sample_state_facts:
  "app_sketch sample_state = [sample_sketch]"
  "app_context sample_state = []"
  "app_references sample_state = []"
  "app_userPrompt sample_state = []"
  "app_params sample_state = sample_params"
  "app_result sample_state = Some sample_result"
  "app_editingTarget sample_state = Some original"
  "length (app_history sample_state) = 3"
  by (simp_all add: sample_state_def initial_state_def sample_params_def)

lemma sample_result_facts:
  "imageData sample_result = Some ''iVBOR''" "prompt sample_result = ''A house''"
  by (simp_all add: sample_result_def)

text \<open>
  C6. From the initial state, and from any state whose history holds at most 3 entries,
  every sequence of generate, style and edit actions leaves at most 3 entries in the
  history. Each action leaves the history unchanged or puts one new result in front of
  the two most recent entries: a generate call that returns puts its result there, a
  style application and a masked edit that succeed put their new result there. Inserting
  into a history of three entries drops the oldest (last) one.
\<close>

theorem history_bounded:
  "length (app_history (run acts initial_state)) \<le> 3
   \<and> (length (app_history s) \<le> 3 \<longrightarrow> length (app_history (run acts s)) \<le> 3)
   \<and> (app_history (step a s) = app_history s
        \<or> (\<exists>r. app_history (step a s) = r # take 2 (app_history s)))
   \<and> (app_sketch s \<noteq> []
        \<and> snd (generateArchitecturalPrompt e (hd (app_sketch s))
                 (case app_context s of [] \<Rightarrow> None | c # cs \<Rightarrow> Some c)
                 (app_references s) (app_params s) (app_userPrompt s) m) = Inr r
        \<longrightarrow> app_history (handleGenerate e m s) = r # take 2 (app_history s))
   \<and> (has_imageData (if source = original then app_result s else app_styledResult s)
        \<and> applyMasterStyle e
              (the (imageData (the (if source = original then app_result s else app_styledResult s))))
              (prompt (the (if source = original then app_result s else app_styledResult s)))
              stylePrompt = Inr d
        \<longrightarrow> (\<exists>r'. imageData r' = Some d
               \<and> app_history (handleMasterStyleClick e source stylePrompt s)
                   = r' # take 2 (app_history s)))
   \<and> (has_imageData
          (if app_editingTarget s = Some original then app_result s else app_styledResult s)
        \<and> editArchitecturalImage e
              (the (imageData (the
                 (if app_editingTarget s = Some original then app_result s
                  else app_styledResult s))))
              maskData editPrompt = Inr d
        \<longrightarrow> (\<exists>r'. imageData r' = Some d
               \<and> app_history (handleApplyEdit e maskData editPrompt s)
                   = r' # take 2 (app_history s)))
   \<and> addToHistory r [a1, a2, a3] = [r, a1, a2]"
proof -
  have init: "length (app_history initial_state) \<le> 3" by (simp add: initial_state_def)
  have c1: "length (app_history (run acts initial_state)) \<le> 3"
    using length_history_run [OF init] .
  have c2: "length (app_history s) \<le> 3 \<longrightarrow> length (app_history (run acts s)) \<le> 3"
    using length_history_run by blast
  have c3: "app_history (step a s) = app_history s
        \<or> (\<exists>r. app_history (step a s) = r # take 2 (app_history s))"
    using history_step [of a s] by (auto simp: addToHistory_Cons)
  have c4: "app_sketch s \<noteq> []
        \<and> snd (generateArchitecturalPrompt e (hd (app_sketch s))
                 (case app_context s of [] \<Rightarrow> None | c # cs \<Rightarrow> Some c)
                 (app_references s) (app_params s) (app_userPrompt s) m) = Inr r
        \<longrightarrow> app_history (handleGenerate e m s) = r # take 2 (app_history s)"
    by (simp add: history_handleGenerate addToHistory_Cons)
  have c5: "has_imageData (if source = original then app_result s else app_styledResult s)
        \<and> applyMasterStyle e
              (the (imageData (the (if source = original then app_result s else app_styledResult s))))
              (prompt (the (if source = original then app_result s else app_styledResult s)))
              stylePrompt = Inr d
        \<longrightarrow> (\<exists>r'. imageData r' = Some d
               \<and> app_history (handleMasterStyleClick e source stylePrompt s)
                   = r' # take 2 (app_history s))"
    by (auto simp: history_handleMasterStyleClick addToHistory_Cons Let_def)
  have c6: "has_imageData
          (if app_editingTarget s = Some original then app_result s else app_styledResult s)
        \<and> editArchitecturalImage e
              (the (imageData (the
                 (if app_editingTarget s = Some original then app_result s
                  else app_styledResult s))))
              maskData editPrompt = Inr d
        \<longrightarrow> (\<exists>r'. imageData r' = Some d
               \<and> app_history (handleApplyEdit e maskData editPrompt s)
                   = r' # take 2 (app_history s))"
    by (auto simp: history_handleApplyEdit addToHistory_Cons Let_def)
  have c7: "addToHistory r [a1, a2, a3] = [r, a1, a2]"
    by (simp add: addToHistory_def)
  from c1 c2 c3 c4 c5 c6 c7 show ?thesis by blast
qed


theorem history_bounded_witness:
  "length (app_history sample_state) \<le> 3
   \<and> length (app_history
        (run [Generate env_retry None, ApplyEdit env_empty_text ''mask'' ''add a tree'']
           sample_state)) \<le> 3
   \<and> app_sketch sample_state \<noteq> []
   \<and> (\<exists>r. snd (generateArchitecturalPrompt env_retry sample_sketch None [] sample_params []
                  None) = Inr r
         \<and> app_history (handleGenerate env_retry None sample_state)
             = r # take 2 (app_history sample_state))
   \<and> has_imageData (app_result sample_state)
   \<and> applyMasterStyle env_empty_text ''iVBOR'' ''A house'' ''noir'' = Inr ''iVBOR''
   \<and> (\<exists>r'. imageData r' = Some ''iVBOR''
         \<and> app_history (handleMasterStyleClick env_empty_text original ''noir'' sample_state)
             = r' # take 2 (app_history sample_state))
   \<and> editArchitecturalImage env_empty_text ''iVBOR'' ''mask'' ''add a tree'' = Inr ''iVBOR''
   \<and> (\<exists>r'. imageData r' = Some ''iVBOR''
         \<and> app_history (handleApplyEdit env_empty_text ''mask'' ''add a tree'' sample_state)
             = r' # take 2 (app_history sample_state))"
proof -
  have len: "length (app_history sample_state) \<le> 3" by (simp add: sample_state_facts)
  have img: "has_imageData (app_result sample_state)"
    by (simp add: has_imageData_def sample_state_facts sample_result_facts)
  obtain r where r: "snd (generateArchitecturalPrompt env_retry sample_sketch None []
      sample_params [] None) = Inr r"
    using generate_env_retry_returns by blast
  have run: "length (app_history
        (run [Generate env_retry None, ApplyEdit env_empty_text ''mask'' ''add a tree'']
           sample_state)) \<le> 3"
    using history_bounded
      [where acts = "[Generate env_retry None, ApplyEdit env_empty_text ''mask'' ''add a tree'']"
         and s = sample_state] len
    by blast
  have gen: "app_history (handleGenerate env_retry None sample_state)
      = r # take 2 (app_history sample_state)"
    using history_bounded [where s = sample_state and e = env_retry and m = None and r = r] r
    by (simp add: sample_state_facts)
  have sty: "\<exists>r'. imageData r' = Some ''iVBOR''
         \<and> app_history (handleMasterStyleClick env_empty_text original ''noir'' sample_state)
             = r' # take 2 (app_history sample_state)"
    using history_bounded [where s = sample_state and e = env_empty_text and source = original
        and stylePrompt = "''noir''" and d = "''iVBOR''"] img applyMasterStyle_sample
    by (simp add: sample_state_facts sample_result_facts)
  have edt: "\<exists>r'. imageData r' = Some ''iVBOR''
         \<and> app_history (handleApplyEdit env_empty_text ''mask'' ''add a tree'' sample_state)
             = r' # take 2 (app_history sample_state)"
    using history_bounded [where s = sample_state and e = env_empty_text
        and maskData = "''mask''" and editPrompt = "''add a tree''" and d = "''iVBOR''"]
      img editArchitecturalImage_sample
    by (simp add: sample_state_facts sample_result_facts)
  from len run r gen img applyMasterStyle_sample sty editArchitecturalImage_sample edt
  show ?thesis by (auto simp: sample_state_facts)
qed

section \<open>Properties of the mask canvas\<close>

subsection \<open>Export\<close>

lemma length_drawImage: "length (drawImage src dst) = length dst"
  by (induction src dst rule: drawImage.induct) simp_all

lemma length_thresholdLoop: "length (thresholdLoop i d) = length d"
proof (induction i d rule: thresholdLoop.induct)
  case (1 i d)
  show ?case
  proof (cases "i < length d")
    case True
    with 1 show ?thesis by (subst thresholdLoop.simps) simp
  next
    case False
    then show ?thesis by (subst thresholdLoop.simps) simp
  qed
qed

lemma exportMask_dims:
  "\<exists>m. maskReady (exportMask s) = Some m
     \<and> px_width m = px_width (canvas s) \<and> px_height m = px_height (canvas s)
     \<and> length (px_data m) = 4 * (px_width (canvas s) * px_height (canvas s))"
  by (simp add: exportMask_def Let_def fillBlack_def length_thresholdLoop length_drawImage
      length_concat sum_list_replicate)

lemma thresholdLoop_nth:
  "i mod 4 = 0 \<Longrightarrow> j < length d \<Longrightarrow>
   thresholdLoop i d ! j =
     (if i \<le> j \<and> j mod 4 < 3 \<and> 20 < d ! (j - j mod 4) then 255 else d ! j)"
proof (induction i d rule: thresholdLoop.induct)
  case (1 i d)
  show ?case
  proof (cases "i < length d")
    case False
    with "1.prems" show ?thesis by (subst thresholdLoop.simps) simp
  next
    case True
    let ?d' = "if 20 < d ! i then d[i := 255, i + 1 := 255, i + 2 := 255] else d"
    have unf: "thresholdLoop i d = thresholdLoop (i + 4) ?d'"
      using True by (subst thresholdLoop.simps) simp
    have len: "length ?d' = length d" by simp
    have m4: "(i + 4) mod 4 = 0" using "1.prems"(1) by presburger
    have IH: "thresholdLoop (i + 4) ?d' ! j =
      (if i + 4 \<le> j \<and> j mod 4 < 3 \<and> 20 < ?d' ! (j - j mod 4) then 255 else ?d' ! j)"
      using "1.IH" [OF True m4] "1.prems"(2) len by simp
    consider (below) "j < i" | (inside) "i \<le> j" "j < i + 4" | (above) "i + 4 \<le> j" by linarith
    then show ?thesis
    proof cases
      case below
      then have "?d' ! j = d ! j" by simp
      with below IH unf show ?thesis by simp
    next
      case inside
      with "1.prems"(1) have jm: "j mod 4 = j - i" "j - j mod 4 = i" by presburger+
      from inside consider "j = i" | "j = i + 1" | "j = i + 2" | "j = i + 3" by linarith
      then have "?d' ! j = (if 20 < d ! i \<and> j - i < 3 then 255 else d ! j)"
        using "1.prems"(2) True by cases (simp_all add: nth_list_update)
      with inside IH unf jm show ?thesis by simp
    next
      case above
      have "i + 4 \<le> j - j mod 4" using above "1.prems"(1) by presburger
      then have "?d' ! (j - j mod 4) = d ! (j - j mod 4)" by simp
      moreover have "?d' ! j = d ! j" using above by simp
      ultimately show ?thesis using above IH unf by simp
    qed
  qed
qed

lemma over_le: "unat (over cs a 0) \<le> unat cs"
proof -
  have a: "unat a < 256" using unsigned_less [of a, where ?'a = nat] by simp
  have c: "unat cs < 256" using unsigned_less [of cs, where ?'a = nat] by simp
  have le: "(unat cs * unat a + 127) div 255 \<le> unat cs"
  proof -
    have "unat cs * unat a \<le> unat cs * 255" using a by simp
    then have "unat cs * unat a + 127 \<le> unat cs * 255 + 127" by simp
    then have "(unat cs * unat a + 127) div 255 \<le> (unat cs * 255 + 127) div 255"
      by (rule div_le_mono)
    also have "\<dots> = unat cs" by simp
    finally show ?thesis .
  qed
  with c have "(unat cs * unat a + 127) div 255 < 2 ^ LENGTH(8)" by simp
  then have "unat (of_nat ((unat cs * unat a + 127) div 255) :: byte)
      = (unat cs * unat a + 127) div 255"
    by (simp add: unat_of_nat)
  with le show ?thesis by (simp add: over_def)
qed

text \<open>
  What the exporter computes, byte by byte: with \<open>c\<close> the raster composited onto
  black, a colour byte (offsets 0 to 2 of a pixel) of the exported image is 255 when the
  red byte of that pixel in \<open>c\<close> exceeds 20, and the byte of \<open>c\<close> otherwise; alpha
  bytes are those of \<open>c\<close>. Only the red channel is tested, and a pixel that fails the
  test keeps its composited colour.
\<close>

lemma exportMask_bytes:
  assumes "maskReady (exportMask s) = Some m" and "j < length (px_data m)"
  shows "px_data m ! j =
    (let c = drawImage (px_data (canvas s))
               (px_data (fillBlack (px_width (canvas s)) (px_height (canvas s))))
     in if j mod 4 < 3 \<and> 20 < c ! (j - j mod 4) then 255 else c ! j)"
proof -
  let ?c = "drawImage (px_data (canvas s))
               (px_data (fillBlack (px_width (canvas s)) (px_height (canvas s))))"
  from assms(1) have m: "px_data m = thresholdLoop 0 ?c"
    by (auto simp: exportMask_def Let_def)
  with assms(2) have "j < length ?c" by (simp add: length_thresholdLoop)
  with thresholdLoop_nth [of 0 j ?c] m show ?thesis by (simp add: Let_def)
qed

text \<open>
  A pixel in the stroke colour \<open>rgba(6, 182, 212, a)\<close> is never exported white,
  whatever its alpha: its composited red byte is at most 6.
\<close>

lemma exportMask_stroke_pixel:
  "maskReady (exportMask (s\<lparr>canvas := \<lparr>px_width = 1, px_height = 1, px_data = [6, 182, 212, a]\<rparr>\<rparr>))
    = Some \<lparr>px_width = 1, px_height = 1,
            px_data = [over 6 a 0, over 182 a 0, over 212 a 0, 255]\<rparr>"
proof -
  have "unat (over 6 a 0) \<le> 6" using over_le [of 6 a] by simp
  then have "\<not> 20 < over 6 a 0" by (simp add: word_less_nat_alt)
  then show ?thesis
    by (simp add: exportMask_def fillBlack_def thresholdLoop.simps Let_def)
qed

lemma over_stroke: "over 6 179 0 = 4" "over 182 179 0 = 128" "over 212 179 0 = 149"
  by (simp_all add: over_def)

text \<open>
  C1, the code at the failing input. The raster holds one pixel painted once with the
  stroke colour, \<open>(6, 182, 212, 179)\<close>. Its green and blue channels exceed the threshold
  20, so the claim asks for pure white; the exported pixel is \<open>(4, 128, 149, 255)\<close>,
  neither white nor black. The loop tests the red byte only, which is 4 after
  compositing onto black, and has no branch that writes black.
\<close>

theorem exportMask_painted:
  "maskReady (exportMask canvas_committed)
    = Some \<lparr>px_width = 1, px_height = 1, px_data = [4, 128, 149, 255]\<rparr>"
  by (simp add: exportMask_def canvas_committed_def painted_def fillBlack_def over_def
      thresholdLoop.simps Let_def)

subsection \<open>History\<close>

lemma getImageData_id [simp]: "getImageData c = c"
  by (simp add: getImageData_def)

lemma exportMask_fields [simp]:
  "canvas (exportMask s) = canvas s"
  "historyRef (exportMask s) = historyRef s"
  "historyStep (exportMask s) = historyStep s"
  "isDrawing (exportMask s) = isDrawing s"
  "brushSize (exportMask s) = brushSize s"
  by (simp_all add: exportMask_def Let_def)

lemma putImageData_same:
  assumes img: "sized w h img" and c: "sized w h c"
  shows "putImageData img c = img"
proof -
  let ?f = "\<lambda>i. let p = i div 4; ch = i mod 4; x = p mod px_width c; y = p div px_width c
                 in if x < px_width img \<and> y < px_height img
                    then px_data img ! (4 * (y * px_width img + x) + ch)
                    else px_data c ! i"
  from img c have dims: "px_width img = w" "px_height img = h" "px_width c = w" "px_height c = h"
    and len: "length (px_data img) = 4 * w * h" "length (px_data c) = 4 * w * h"
    by (simp_all add: sized_def)
  have "map ?f [0..<length (px_data c)] = px_data img"
  proof (rule nth_equalityI)
    show "length (map ?f [0..<length (px_data c)]) = length (px_data img)"
      using len by simp
  next
    fix i assume "i < length (map ?f [0..<length (px_data c)])"
    then have i: "i < 4 * w * h" using len by simp
    then have w: "0 < w" by (cases w) auto
    from i have p: "i div 4 < w * h" by (simp add: less_mult_imp_div_less mult.commute mult.assoc)
    have x: "(i div 4) mod w < w" using w by simp
    have y: "(i div 4) div w < h"
      using p w by (simp add: less_mult_imp_div_less mult.commute)
    have "4 * ((i div 4) div w * w + (i div 4) mod w) + i mod 4 = i"
      by simp
    with x y i show "map ?f [0..<length (px_data c)] ! i = px_data img ! i"
      using len dims by (simp add: Let_def)
  qed
  then have "putImageData img c = c\<lparr>px_data := px_data img\<rparr>"
    by (simp add: putImageData_def)
  also have "\<dots> = img" using dims by simp
  finally show ?thesis .
qed


lemma sized_nth: "list_all (sized w h) xs \<Longrightarrow> i < length xs \<Longrightarrow> sized w h (xs ! i)"
  by (simp add: list_all_length)

lemma saveHistoryState_fields:
  "historyRef (saveHistoryState s) = take (Suc (historyStep s)) (historyRef s) @ [canvas s]"
  "historyStep (saveHistoryState s) = min (Suc (historyStep s)) (length (historyRef s))"
  "canvas (saveHistoryState s) = canvas s"
  by (simp_all add: saveHistoryState_def Let_def)

lemma handleUndo_fields:
  assumes "history_inv s" and "0 < historyStep s"
  shows "canvas (handleUndo s) = historyRef s ! (historyStep s - 1)"
    and "historyStep (handleUndo s) = historyStep s - 1"
    and "historyRef (handleUndo s) = historyRef s"
proof -
  from assms have lt: "historyStep s - 1 < length (historyRef s)" by (auto simp: history_inv_def)
  from assms(1) lt have "sized (px_width (canvas s)) (px_height (canvas s))
      (historyRef s ! (historyStep s - 1))"
    by (simp add: history_inv_def sized_nth)
  moreover from assms(1) have "sized (px_width (canvas s)) (px_height (canvas s)) (canvas s)"
    by (simp add: history_inv_def)
  ultimately have "putImageData (historyRef s ! (historyStep s - 1)) (canvas s)
      = historyRef s ! (historyStep s - 1)"
    by (rule putImageData_same)
  with assms lt show "canvas (handleUndo s) = historyRef s ! (historyStep s - 1)"
    and "historyStep (handleUndo s) = historyStep s - 1"
    and "historyRef (handleUndo s) = historyRef s"
    by (simp_all add: handleUndo_def Let_def)
qed

lemma handleRedo_fields:
  assumes "history_inv s" and "Suc (historyStep s) < length (historyRef s)"
  shows "canvas (handleRedo s) = historyRef s ! Suc (historyStep s)"
    and "historyStep (handleRedo s) = Suc (historyStep s)"
    and "historyRef (handleRedo s) = historyRef s"
proof -
  from assms have "sized (px_width (canvas s)) (px_height (canvas s))
      (historyRef s ! Suc (historyStep s))"
    by (simp add: history_inv_def sized_nth)
  moreover from assms(1) have "sized (px_width (canvas s)) (px_height (canvas s)) (canvas s)"
    by (simp add: history_inv_def)
  ultimately have "putImageData (historyRef s ! Suc (historyStep s)) (canvas s)
      = historyRef s ! Suc (historyStep s)"
    by (rule putImageData_same)
  moreover from assms(2) have "int (historyStep s) < int (length (historyRef s)) - 1" by simp
  ultimately show "canvas (handleRedo s) = historyRef s ! Suc (historyStep s)"
    and "historyStep (handleRedo s) = Suc (historyStep s)"
    and "historyRef (handleRedo s) = historyRef s"
    by (simp_all add: handleRedo_def Let_def)
qed

lemma handleRedo_at_tip:
  "Suc (historyStep s) \<ge> length (historyRef s) \<Longrightarrow> handleRedo s = s"
  by (simp add: handleRedo_def)

lemma handleUndo_at_start: "historyStep s = 0 \<Longrightarrow> handleUndo s = s"
  by (simp add: handleUndo_def)

lemma history_inv_saveHistoryState: "history_inv s \<Longrightarrow> history_inv (saveHistoryState s)"
  by (auto simp: history_inv_def saveHistoryState_fields list_all_iff dest: in_set_takeD)

lemma history_inv_handleUndo: "history_inv s \<Longrightarrow> history_inv (handleUndo s)"
proof (cases "0 < historyStep s")
  case True
  assume w: "history_inv s"
  from w True have lt: "historyStep s - 1 < length (historyRef s)" by (auto simp: history_inv_def)
  with w have sz: "sized (px_width (canvas s)) (px_height (canvas s))
      (historyRef s ! (historyStep s - 1))"
    by (simp add: history_inv_def sized_nth)
  from w sz lt show ?thesis
    unfolding history_inv_def handleUndo_fields [OF w True]
    by (simp add: sized_def)
next
  case False
  assume "history_inv s"
  with False show ?thesis by (simp add: handleUndo_at_start)
qed

lemma history_inv_handleRedo: "history_inv s \<Longrightarrow> history_inv (handleRedo s)"
proof (cases "Suc (historyStep s) < length (historyRef s)")
  case True
  assume w: "history_inv s"
  with True have sz: "sized (px_width (canvas s)) (px_height (canvas s))
      (historyRef s ! Suc (historyStep s))"
    by (simp add: history_inv_def sized_nth)
  from w sz True show ?thesis
    unfolding history_inv_def handleRedo_fields [OF w True]
    by (simp add: sized_def)
next
  case False
  assume "history_inv s"
  with False show ?thesis by (simp add: handleRedo_at_tip)
qed

lemma history_inv_onload: "history_inv (onload w h s)"
  by (simp add: history_inv_def onload_def sized_def clearRect_def blank_def Let_def)

lemma history_inv_clearCanvas: "history_inv s \<Longrightarrow> history_inv (clearCanvas s)"
proof -
  assume w: "history_inv s"
  then have "history_inv (s\<lparr>canvas := clearRect (canvas s)\<rparr>)"
    by (simp add: history_inv_def sized_def clearRect_def)
  then show ?thesis unfolding clearCanvas_def by (rule history_inv_saveHistoryState)
qed




lemma history_inv_canvas_undone: "history_inv canvas_undone"
  by (simp add: history_inv_def sized_def canvas_undone_def painted_def blank_def)

lemma apply_op_historyRef: "history_inv t \<Longrightarrow> historyRef (apply_op op t) = historyRef t"
proof (cases op)
  case Undo
  assume "history_inv t"
  then show ?thesis
    using Undo handleUndo_fields(3) [of t] handleUndo_at_start [of t]
    by (cases "0 < historyStep t") auto
next
  case Redo
  assume "history_inv t"
  then show ?thesis
    using Redo handleRedo_fields(3) [of t] handleRedo_at_tip [of t]
    by (cases "Suc (historyStep t) < length (historyRef t)") auto
qed

lemma history_inv_apply_op: "history_inv t \<Longrightarrow> history_inv (apply_op op t)"
  by (cases op) (simp_all add: history_inv_handleUndo history_inv_handleRedo)

lemma apply_op_canvas:
  assumes w: "history_inv t" and c: "canvas t \<in> set (historyRef t)"
  shows "canvas (apply_op op t) \<in> set (historyRef t)"
proof (cases op)
  case Undo
  show ?thesis
  proof (cases "0 < historyStep t")
    case True
    with w have "historyStep t - 1 < length (historyRef t)" by (auto simp: history_inv_def)
    with Undo handleUndo_fields(1) [OF w True] show ?thesis by simp
  next
    case False
    with Undo c show ?thesis by (simp add: handleUndo_at_start)
  qed
next
  case Redo
  show ?thesis
  proof (cases "Suc (historyStep t) < length (historyRef t)")
    case True
    with Redo handleRedo_fields(1) [OF w True] show ?thesis by simp
  next
    case False
    with Redo c show ?thesis by (simp add: handleRedo_at_tip)
  qed
qed

lemma undo_redo_reach:
  "history_inv t \<Longrightarrow> canvas t \<in> set (historyRef t) \<Longrightarrow>
   canvas (foldl (\<lambda>u op. apply_op op u) t ops) \<in> set (historyRef t)"
proof (induction ops arbitrary: t)
  case Nil
  then show ?case by simp
next
  case (Cons op ops)
  have "history_inv (apply_op op t)" using Cons.prems(1) by (rule history_inv_apply_op)
  moreover have "canvas (apply_op op t) \<in> set (historyRef (apply_op op t))"
    using apply_op_canvas [OF Cons.prems] apply_op_historyRef [OF Cons.prems(1)] by simp
  ultimately have "canvas (foldl (\<lambda>u op. apply_op op u) (apply_op op t) ops)
      \<in> set (historyRef (apply_op op t))"
    by (rule Cons.IH)
  then show ?case using apply_op_historyRef [OF Cons.prems(1)] by simp
qed



text \<open>
  C8. In such a state with the cursor below the tip, a commit (of a stroke, or of a
  clear) keeps the snapshots up to the cursor, drops every snapshot after it and appends
  the current raster; the cursor then points to this new last entry, a redo changes
  nothing, and every raster that undo and redo can reach afterwards is one of the kept
  snapshots or the new one.
\<close>

theorem commit_discards_redo:
  "(history_inv s \<and> Suc (historyStep s) < length (historyRef s) \<longrightarrow>
      historyRef (saveHistoryState s) = take (Suc (historyStep s)) (historyRef s) @ [canvas s]
      \<and> length (historyRef (saveHistoryState s)) = historyStep s + 2
      \<and> length (historyRef (saveHistoryState s)) \<le> length (historyRef s)
      \<and> historyStep (saveHistoryState s) = length (historyRef (saveHistoryState s)) - 1
      \<and> historyRef (saveHistoryState s) ! historyStep (saveHistoryState s) = canvas s
      \<and> handleRedo (saveHistoryState s) = saveHistoryState s
      \<and> (\<forall>ops. canvas (foldl (\<lambda>u op. apply_op op u) (saveHistoryState s) ops)
             \<in> set (take (Suc (historyStep s)) (historyRef s) @ [canvas s])))
   \<and> (history_inv s \<and> Suc (historyStep s) < length (historyRef s) \<longrightarrow>
      historyRef (clearCanvas s)
        = take (Suc (historyStep s)) (historyRef s) @ [clearRect (canvas s)]
      \<and> historyStep (clearCanvas s) = length (historyRef (clearCanvas s)) - 1
      \<and> handleRedo (clearCanvas s) = clearCanvas s)"
proof -
  have commit: "historyRef (saveHistoryState t) = take (Suc (historyStep t)) (historyRef t) @ [canvas t]
      \<and> length (historyRef (saveHistoryState t)) = historyStep t + 2
      \<and> length (historyRef (saveHistoryState t)) \<le> length (historyRef t)
      \<and> historyStep (saveHistoryState t) = length (historyRef (saveHistoryState t)) - 1
      \<and> historyRef (saveHistoryState t) ! historyStep (saveHistoryState t) = canvas t
      \<and> handleRedo (saveHistoryState t) = saveHistoryState t
      \<and> (\<forall>ops. canvas (foldl (\<lambda>u op. apply_op op u) (saveHistoryState t) ops)
             \<in> set (take (Suc (historyStep t)) (historyRef t) @ [canvas t]))"
    if w: "history_inv t" and mid: "Suc (historyStep t) < length (historyRef t)" for t
  proof -
    have h: "historyRef (saveHistoryState t) = take (Suc (historyStep t)) (historyRef t) @ [canvas t]"
      by (simp add: saveHistoryState_fields)
    have len: "length (historyRef (saveHistoryState t)) = historyStep t + 2"
      using mid by (simp add: saveHistoryState_fields)
    have st: "historyStep (saveHistoryState t) = Suc (historyStep t)"
      using mid by (simp add: saveHistoryState_fields)
    have tip: "historyStep (saveHistoryState t) = length (historyRef (saveHistoryState t)) - 1"
      using len st by simp
    have at: "historyRef (saveHistoryState t) ! historyStep (saveHistoryState t) = canvas t"
      using mid by (simp add: saveHistoryState_fields nth_append)
    have redo: "handleRedo (saveHistoryState t) = saveHistoryState t"
      using len st by (intro handleRedo_at_tip) simp
    have w': "history_inv (saveHistoryState t)" using w by (rule history_inv_saveHistoryState)
    have "canvas (saveHistoryState t) \<in> set (historyRef (saveHistoryState t))"
      by (simp add: saveHistoryState_fields)
    from undo_redo_reach [OF w' this]
    have reach: "\<forall>ops. canvas (foldl (\<lambda>u op. apply_op op u) (saveHistoryState t) ops)
             \<in> set (take (Suc (historyStep t)) (historyRef t) @ [canvas t])"
      unfolding h by blast
    from h len tip at redo reach mid show ?thesis by simp
  qed
  have clear: "historyRef (clearCanvas s)
        = take (Suc (historyStep s)) (historyRef s) @ [clearRect (canvas s)]
      \<and> historyStep (clearCanvas s) = length (historyRef (clearCanvas s)) - 1
      \<and> handleRedo (clearCanvas s) = clearCanvas s"
    if w: "history_inv s" and mid: "Suc (historyStep s) < length (historyRef s)"
  proof -
    let ?t = "s\<lparr>canvas := clearRect (canvas s)\<rparr>"
    have "history_inv ?t" using w by (simp add: history_inv_def sized_def clearRect_def)
    moreover have "Suc (historyStep ?t) < length (historyRef ?t)" using mid by simp
    ultimately show ?thesis using commit [of ?t] by (simp add: clearCanvas_def)
  qed
  from commit [of s] clear show ?thesis by blast
qed

theorem commit_discards_redo_witness:
  "history_inv canvas_undone \<and> Suc (historyStep canvas_undone) < length (historyRef canvas_undone)
   \<and> historyRef canvas_undone = [blank 1 1, painted]
   \<and> historyRef (saveHistoryState canvas_undone) = [blank 1 1, blank 1 1]
   \<and> historyStep (saveHistoryState canvas_undone) = 1
   \<and> handleRedo (saveHistoryState canvas_undone) = saveHistoryState canvas_undone
   \<and> historyRef (clearCanvas canvas_undone) = [blank 1 1, clearRect (blank 1 1)]"
proof -
  have mid: "Suc (historyStep canvas_undone) < length (historyRef canvas_undone)"
    by (simp add: canvas_undone_def)
  note T = commit_discards_redo [of canvas_undone]
  from T history_inv_canvas_undone mid
  have h: "historyRef (saveHistoryState canvas_undone)
      = take (Suc (historyStep canvas_undone)) (historyRef canvas_undone) @ [canvas canvas_undone]"
    and st: "historyStep (saveHistoryState canvas_undone)
      = length (historyRef (saveHistoryState canvas_undone)) - 1"
    and redo: "handleRedo (saveHistoryState canvas_undone) = saveHistoryState canvas_undone"
    and cl: "historyRef (clearCanvas canvas_undone)
        = take (Suc (historyStep canvas_undone)) (historyRef canvas_undone)
          @ [clearRect (canvas canvas_undone)]"
    by blast+
  from h have h': "historyRef (saveHistoryState canvas_undone) = [blank 1 1, blank 1 1]"
    by (simp add: canvas_undone_def)
  from st h' have st': "historyStep (saveHistoryState canvas_undone) = 1" by simp
  from cl have cl': "historyRef (clearCanvas canvas_undone) = [blank 1 1, clearRect (blank 1 1)]"
    by (simp add: canvas_undone_def)
  have "historyRef canvas_undone = [blank 1 1, painted]" by (simp add: canvas_undone_def)
  with history_inv_canvas_undone mid h' st' redo cl' show ?thesis by simp
qed

subsection \<open>Coordinate mapping\<close>

text \<open>
  The pointer position \<open>(57, 20)\<close> over a bounding box with left and top 8, width
  333 and height 250, on a raster of 1024 x 768 pixels: \<open>draw\<close> computes
  \<open>x = 150.67867867867866\<close> and \<open>y = 36.864000000000004\<close>, and the inverse
  mapping takes this point to \<open>(56.99999999999999, 20)\<close>.
\<close>

lemma draw_sample:
  "draw \<lparr>canvas = blank 1024 768, isDrawing = True, brushSize = 30, historyStep = 0,
          historyRef = [blank 1024 768], maskReady = None\<rparr>
        \<lparr>rect_left = 8, rect_top = 8, rect_width = 333, rect_height = 250\<rparr>
        (MouseEvent 57 20)
     = Some (5301534696484187 / 35184372088832, 1297036692682703 / 35184372088832,
             3245837569276033 / 35184372088832)"
  by (simp add: draw_def client_pos_def blank_def js_mul_def js_sub_def js_div_def
      round_double_def expo_def pow2_def rne_def bits.simps Let_def)

lemma to_display_sample:
  "to_display \<lparr>rect_left = 8, rect_top = 8, rect_width = 333, rect_height = 250\<rparr>
      (blank 1024 768)
      (5301534696484187 / 35184372088832, 1297036692682703 / 35184372088832)
     = (8022036836253695 / 140737488355328, 20)"
  by (simp add: to_display_def blank_def js_add_def js_div_def
      round_double_def expo_def pow2_def rne_def bits.simps Let_def)

text \<open>
  On a raster narrower than its box, neighbouring doubles can be mapped to the same
  raster coordinate, so that no mapping back, however computed, returns both.
\<close>

lemma draw_not_injective:
  "round_double (57 + 1 / 2 ^ 47) = 57 + 1 / 2 ^ 47
   \<and> round_double (57 + 1 / 2 ^ 46) = 57 + 1 / 2 ^ 46
   \<and> draw \<lparr>canvas = blank 333 250, isDrawing = True, brushSize = 30, historyStep = 0,
            historyRef = [blank 333 250], maskReady = None\<rparr>
          \<lparr>rect_left = 0, rect_top = 0, rect_width = 1024, rect_height = 768\<rparr>
          (MouseEvent (57 + 1 / 2 ^ 47) 0)
     = draw \<lparr>canvas = blank 333 250, isDrawing = True, brushSize = 30, historyStep = 0,
            historyRef = [blank 333 250], maskReady = None\<rparr>
          \<lparr>rect_left = 0, rect_top = 0, rect_width = 1024, rect_height = 768\<rparr>
          (MouseEvent (57 + 1 / 2 ^ 46) 0)"
  by (simp add: draw_def client_pos_def blank_def js_mul_def js_sub_def js_div_def
      round_double_def expo_def pow2_def rne_def bits.simps Let_def)

text \<open>
  C9, as stated, at the pointer position \<open>(57, 20)\<close>, the bounding box with left and
  top 8, width 333 and height 250, and the raster of 1024 x 768 pixels. Mapping the point
  to raster space and back yields \<open>(56.99999999999999, 20)\<close>, which is not the
  original point: the round trip is not exact in double arithmetic.
\<close>

theorem draw_roundtrip_exact_counterexample:
  "draw \<lparr>canvas = blank 1024 768, isDrawing = True, brushSize = 30, historyStep = 0,
          historyRef = [blank 1024 768], maskReady = None\<rparr>
        \<lparr>rect_left = 8, rect_top = 8, rect_width = 333, rect_height = 250\<rparr>
        (MouseEvent 57 20)
     = Some (5301534696484187 / 35184372088832, 1297036692682703 / 35184372088832,
             3245837569276033 / 35184372088832)
   \<and> to_display \<lparr>rect_left = 8, rect_top = 8, rect_width = 333, rect_height = 250\<rparr>
        (blank 1024 768)
        (5301534696484187 / 35184372088832, 1297036692682703 / 35184372088832)
     = (8022036836253695 / 140737488355328, 20)
   \<and> to_display \<lparr>rect_left = 8, rect_top = 8, rect_width = 333, rect_height = 250\<rparr>
        (blank 1024 768)
        (5301534696484187 / 35184372088832, 1297036692682703 / 35184372088832)
     \<noteq> (57, 20)"
  using draw_sample to_display_sample by simp

text \<open>
  C9, amended. While a stroke is open, for a pointer position \<open>(clientX, clientY)\<close>,
  a bounding box of positive width and height and a raster of positive pixel dimensions,
  \<open>draw\<close> hands to the path API the point
  \<open>x = (clientX - rect.left) * (canvas.width / rect.width)\<close>,
  \<open>y = (clientY - rect.top) * (canvas.height / rect.height)\<close>, each operation
  rounded to a double. The point is within \<open>4 * 2^-53\<close> of the exact value of the
  formula, relatively; both computed scale factors are positive; and mapping \<open>(x, y)\<close>
  back (dividing by the same scale factor and adding the origin of the box, in double
  arithmetic) yields the original point within floating-point tolerance: the
  coordinate differs from \<open>clientX\<close> by at most
  \<open>(4 * |clientX - rect.left| + |clientX|) * 2^-53\<close>, and likewise for
  \<open>clientY\<close>.
\<close>

theorem draw_coordinate_roundtrip:
  assumes "isDrawing s"
    and "client_pos e = Some (clientX, clientY)"
    and "0 < rect_width rect" and "0 < rect_height rect"
    and "0 < px_width (canvas s)" and "0 < px_height (canvas s)"
  shows "\<exists>x y lineWidth. draw s rect e = Some (x, y, lineWidth)
      \<and> x = js_mul (js_sub clientX (rect_left rect))
              (js_div (real (px_width (canvas s))) (rect_width rect))
      \<and> y = js_mul (js_sub clientY (rect_top rect))
              (js_div (real (px_height (canvas s))) (rect_height rect))
      \<and> \<bar>x - (clientX - rect_left rect) * (real (px_width (canvas s)) / rect_width rect)\<bar>
          \<le> 4 * \<bar>(clientX - rect_left rect) * (real (px_width (canvas s)) / rect_width rect)\<bar>
              / 2 ^ 53
      \<and> \<bar>y - (clientY - rect_top rect) * (real (px_height (canvas s)) / rect_height rect)\<bar>
          \<le> 4 * \<bar>(clientY - rect_top rect) * (real (px_height (canvas s)) / rect_height rect)\<bar>
              / 2 ^ 53
      \<and> 0 < js_div (real (px_width (canvas s))) (rect_width rect)
      \<and> 0 < js_div (real (px_height (canvas s))) (rect_height rect)
      \<and> \<bar>fst (to_display rect (canvas s) (x, y)) - clientX\<bar>
          \<le> (4 * \<bar>clientX - rect_left rect\<bar> + \<bar>clientX\<bar>) / 2 ^ 53
      \<and> \<bar>snd (to_display rect (canvas s) (x, y)) - clientY\<bar>
          \<le> (4 * \<bar>clientY - rect_top rect\<bar> + \<bar>clientY\<bar>) / 2 ^ 53"
proof -
  let ?sx = "js_div (real (px_width (canvas s))) (rect_width rect)"
  let ?sy = "js_div (real (px_height (canvas s))) (rect_height rect)"
  let ?x = "js_mul (js_sub clientX (rect_left rect)) ?sx"
  let ?y = "js_mul (js_sub clientY (rect_top rect)) ?sy"
  have sx: "0 < ?sx" using assms(3,5) by (intro js_div_pos) simp_all
  have sy: "0 < ?sy" using assms(4,6) by (intro js_div_pos) simp_all
  have d: "draw s rect e
      = Some (?x, ?y, js_mul (real (brushSize s)) ?sx)"
    using assms(1,2) by (simp add: draw_def Let_def)
  have fx: "fst (to_display rect (canvas s) (?x, ?y)) = js_add (js_div ?x ?sx) (rect_left rect)"
    by (simp add: to_display_def)
  have fy: "snd (to_display rect (canvas s) (?x, ?y)) = js_add (js_div ?y ?sy) (rect_top rect)"
    by (simp add: to_display_def)
  have bx: "\<bar>fst (to_display rect (canvas s) (?x, ?y)) - clientX\<bar>
      \<le> (4 * \<bar>clientX - rect_left rect\<bar> + \<bar>clientX\<bar>) / 2 ^ 53"
    unfolding fx by (rule roundtrip_bound [OF sx])
  have "by": "\<bar>snd (to_display rect (canvas s) (?x, ?y)) - clientY\<bar>
      \<le> (4 * \<bar>clientY - rect_top rect\<bar> + \<bar>clientY\<bar>) / 2 ^ 53"
    unfolding fy by (rule roundtrip_bound [OF sy])
  show ?thesis
    using d sx sy bx "by"
      scale_bound [of clientX "rect_left rect" "real (px_width (canvas s))" "rect_width rect"]
      scale_bound [of clientY "rect_top rect" "real (px_height (canvas s))" "rect_height rect"]
    by blast
qed

theorem draw_coordinate_roundtrip_witness:
  "isDrawing \<lparr>canvas = blank 1024 768, isDrawing = True, brushSize = 30, historyStep = 0,
              historyRef = [blank 1024 768], maskReady = None\<rparr>
   \<and> client_pos (MouseEvent 57 20) = Some (57, 20)
   \<and> draw \<lparr>canvas = blank 1024 768, isDrawing = True, brushSize = 30, historyStep = 0,
            historyRef = [blank 1024 768], maskReady = None\<rparr>
          \<lparr>rect_left = 8, rect_top = 8, rect_width = 333, rect_height = 250\<rparr>
          (MouseEvent 57 20)
       = Some (5301534696484187 / 35184372088832, 1297036692682703 / 35184372088832,
               3245837569276033 / 35184372088832)
   \<and> \<bar>5301534696484187 / 35184372088832 - (57 - 8) * (1024 / 333)\<bar>
       \<le> 4 * \<bar>(57 - 8) * (1024 / 333 :: real)\<bar> / 2 ^ 53
   \<and> to_display \<lparr>rect_left = 8, rect_top = 8, rect_width = 333, rect_height = 250\<rparr>
        (blank 1024 768)
        (5301534696484187 / 35184372088832, 1297036692682703 / 35184372088832)
       = (8022036836253695 / 140737488355328, 20)
   \<and> \<bar>8022036836253695 / 140737488355328 - 57\<bar> \<le> (4 * \<bar>57 - 8\<bar> + \<bar>57 :: real\<bar>) / 2 ^ 53"
proof -
  let ?s = "\<lparr>canvas = blank 1024 768, isDrawing = True, brushSize = 30, historyStep = 0,
              historyRef = [blank 1024 768], maskReady = None\<rparr>"
  let ?rect = "\<lparr>rect_left = 8, rect_top = 8, rect_width = 333, rect_height = 250\<rparr>"
  have a: "isDrawing ?s" by simp
  have b: "client_pos (MouseEvent 57 20) = Some (57, 20)" by (simp add: client_pos_def)
  have c: "0 < rect_width ?rect" "0 < rect_height ?rect" by simp_all
  have d: "0 < px_width (canvas ?s)" "0 < px_height (canvas ?s)" by (simp_all add: blank_def)
  from draw_coordinate_roundtrip [OF a b c d]
  obtain x y lw where r: "draw ?s ?rect (MouseEvent 57 20) = Some (x, y, lw)"
    and fwd: "\<bar>x - (57 - rect_left ?rect) * (real (px_width (canvas ?s)) / rect_width ?rect)\<bar>
        \<le> 4 * \<bar>(57 - rect_left ?rect) * (real (px_width (canvas ?s)) / rect_width ?rect)\<bar>
            / 2 ^ 53"
    and bx: "\<bar>fst (to_display ?rect (canvas ?s) (x, y)) - 57\<bar>
        \<le> (4 * \<bar>57 - rect_left ?rect\<bar> + \<bar>57\<bar>) / 2 ^ 53"
    by blast
  from r draw_sample
  have xy: "x = 5301534696484187 / 35184372088832" "y = 1297036692682703 / 35184372088832"
    "lw = 3245837569276033 / 35184372088832"
    by simp_all
  have w: "real (px_width (canvas ?s)) = 1024" by (simp add: blank_def)
  have cs: "canvas ?s = blank 1024 768" by simp
  have rl: "rect_left ?rect = 8" "rect_width ?rect = 333" by simp_all
  have fs: "fst (to_display ?rect (blank 1024 768)
        (5301534696484187 / 35184372088832, 1297036692682703 / 35184372088832))
      = 8022036836253695 / 140737488355328"
    by (simp only: to_display_sample fst_conv)
  note fwd' = fwd [unfolded xy w rl]
  note bx' = bx [unfolded xy cs rl fs]
  from a b r [unfolded xy] fwd' to_display_sample bx' show ?thesis by (intro conjI)
qed

end
